theory Spec2Isabelle
  imports Main "HOL-Library.Char_ord" "HOL-Library.List_Lexorder" "HOL-Library.AList"
begin

section \<open>Python values\<close>

text \<open>
  A Python \<open>str\<close> is modelled as an Isabelle \<open>string\<close>, one \<open>char\<close> per code point. This
  covers the strings whose code points are below 256; \<open>ord\<close> is \<open>of_char\<close>. A \<open>dict\<close> from names
  to values is a map, a \<open>set\<close> of names is a set of strings. An exception is a value of
  \<open>error\<close> on the left of a sum.
\<close>

datatype error =
    ValueError
  | RuntimeError
  | IndexError
  | TypeError
  | FileNotFoundError
  | UnicodeEncodeError
  | OSError
  | SystemExit int

type_synonym env = "string \<rightharpoonup> string"

definition char_in :: "char \<Rightarrow> char \<Rightarrow> char \<Rightarrow> bool" where
  "char_in lo hi c \<longleftrightarrow> lo \<le> c \<and> c \<le> hi"

subsection \<open>Regular expressions\<close>

text \<open>
  The patterns of class \<open>Val\<close> use character classes, concatenation, alternation, \<open>+\<close>, \<open>*\<close>
  and \<open>?\<close> only, so whether \<open>re.search\<close> finds a match is decided by the language of the
  pattern; the matcher below decides membership with derivatives. A class is the
  predicate of its members.
\<close>

datatype rx = Null | Eps | Cls "char \<Rightarrow> bool" | Cat rx rx | Alt rx rx | Star rx

definition Plus :: "rx \<Rightarrow> rx" where
  "Plus r = Cat r (Star r)"

definition Opt :: "rx \<Rightarrow> rx" where
  "Opt r = Alt r Eps"

definition Chr :: "char \<Rightarrow> rx" where
  "Chr c = Cls (\<lambda>x. x = c)"

fun Lit :: "string \<Rightarrow> rx" where
  "Lit [] = Eps"
| "Lit (c # cs) = Cat (Chr c) (Lit cs)"

fun nullable :: "rx \<Rightarrow> bool" where
  "nullable Null = False"
| "nullable Eps = True"
| "nullable (Cls P) = False"
| "nullable (Cat r s) = (nullable r \<and> nullable s)"
| "nullable (Alt r s) = (nullable r \<or> nullable s)"
| "nullable (Star r) = True"

fun deriv :: "char \<Rightarrow> rx \<Rightarrow> rx" where
  "deriv c Null = Null"
| "deriv c Eps = Null"
| "deriv c (Cls P) = (if P c then Eps else Null)"
| "deriv c (Cat r s) =
     (if nullable r then Alt (Cat (deriv c r) s) (deriv c s) else Cat (deriv c r) s)"
| "deriv c (Alt r s) = Alt (deriv c r) (deriv c s)"
| "deriv c (Star r) = Cat (deriv c r) (Star r)"

definition fullmatch :: "rx \<Rightarrow> string \<Rightarrow> bool" where
  "fullmatch r s = nullable (fold deriv s r)"

text \<open>The language of a pattern, the reference the matcher is proved against.\<close>

inductive_set rx_star :: "string set \<Rightarrow> string set" for A :: "string set" where
  rx_star_nil: "[] \<in> rx_star A"
| rx_star_app: "u \<in> A \<Longrightarrow> v \<in> rx_star A \<Longrightarrow> u @ v \<in> rx_star A"

fun lang :: "rx \<Rightarrow> string set" where
  "lang Null = {}"
| "lang Eps = {[]}"
| "lang (Cls P) = {[c] | c. P c}"
| "lang (Cat r s) = {u @ v | u v. u \<in> lang r \<and> v \<in> lang s}"
| "lang (Alt r s) = lang r \<union> lang s"
| "lang (Star r) = rx_star (lang r)"

text \<open>
  \<open>re.search\<close> of a pattern written \<open>\A ... \Z\<close>: both anchors are absolute (the flag
  \<open>re.MULTILINE\<close> changes \<open>^\<close> and \<open>$\<close> only), so the whole string has to match.
\<close>

definition re_search_A_Z :: "rx \<Rightarrow> string \<Rightarrow> bool" where
  "re_search_A_Z r s = fullmatch r s"

section \<open>class Val: patterns for validation\<close>

definition cls_alpha :: "char \<Rightarrow> bool" where
  "cls_alpha c \<longleftrightarrow> char_in CHR ''a'' CHR ''z'' c \<or> char_in CHR ''A'' CHR ''Z'' c"

definition cls_alpha_us :: "char \<Rightarrow> bool" where
  "cls_alpha_us c \<longleftrightarrow> char_in CHR ''a'' CHR ''z'' c \<or> char_in CHR ''A'' CHR ''Z'' c \<or> c = CHR ''_''"

definition cls_word :: "char \<Rightarrow> bool" where
  "cls_word c \<longleftrightarrow>
     char_in CHR ''a'' CHR ''z'' c \<or> char_in CHR ''A'' CHR ''Z'' c
     \<or> char_in CHR ''0'' CHR ''9'' c \<or> c = CHR ''_''"

text \<open>\<^verbatim>\<open>sh_varname = re.compile(r"\A([a-zA-Z_][a-zA-Z0-9_]+|[a-zA-Z][a-zA-Z0-9_]*)\Z", re.MULTILINE)\<close>\<close>

definition sh_varname :: rx where
  "sh_varname =
     Alt (Cat (Cls cls_alpha_us) (Plus (Cls cls_word)))
         (Cat (Cls cls_alpha) (Star (Cls cls_word)))"

section \<open>filter_varnames\<close>

text \<open>
  On a dict, \<open>filter_varnames\<close> pops every key that \<open>Val.sh_varname.search\<close> does not match
  and returns the dict; on a list, tuple or set of names it keeps the names that match.
\<close>

definition filter_varnames :: "(string \<rightharpoonup> 'v) \<Rightarrow> (string \<rightharpoonup> 'v)" where
  "filter_varnames data = (\<lambda>var. if re_search_A_Z sh_varname var then data var else None)"

definition filter_varnames_list :: "string list \<Rightarrow> string list" where
  "filter_varnames_list data = filter (re_search_A_Z sh_varname) data"

text \<open>
  The shell's own notion of a name, for comparison (POSIX: a word of underscores, digits
  and letters that does not begin with a digit): \<open>[a-zA-Z_][a-zA-Z0-9_]*\<close>.
\<close>

definition posix_name :: rx where
  "posix_name = Cat (Cls cls_alpha_us) (Star (Cls cls_word))"

section \<open>Text and files\<close>

definition LF :: char where "LF = CHR 0x0A"
definition CR :: char where "CR = CHR 0x0D"
definition NUL :: char where "NUL = CHR 0x00"

text \<open>\<open>str.isspace\<close> on the code points below 256.\<close>

definition isspace :: "char \<Rightarrow> bool" where
  "isspace c \<longleftrightarrow> char_in (CHR 0x09) (CHR 0x0D) c \<or> char_in (CHR 0x1C) (CHR 0x20) c
     \<or> c = CHR 0x85 \<or> c = CHR 0xA0"

definition lstrip :: "string \<Rightarrow> string" where
  "lstrip s = dropWhile isspace s"

definition rstrip :: "string \<Rightarrow> string" where
  "rstrip s = rev (dropWhile isspace (rev s))"

definition strip :: "string \<Rightarrow> string" where
  "strip s = rstrip (lstrip s)"

definition startswith :: "string \<Rightarrow> string \<Rightarrow> bool" where
  "startswith s p \<longleftrightarrow> take (length p) s = p"

definition endswith :: "string \<Rightarrow> string \<Rightarrow> bool" where
  "endswith s p \<longleftrightarrow> length p \<le> length s \<and> drop (length s - length p) s = p"

text \<open>\<open>sep.join(xs)\<close>\<close>

fun join :: "string \<Rightarrow> string list \<Rightarrow> string" where
  "join sep [] = []"
| "join sep [x] = x"
| "join sep (x # y # ys) = x @ sep @ join sep (y # ys)"

text \<open>\<open>s.split(c)\<close> for a separator of one character: always at least one field.\<close>

fun split_chr :: "char \<Rightarrow> string \<Rightarrow> string list" where
  "split_chr c [] = [[]]"
| "split_chr c (x # xs) =
     (if x = c then [] # split_chr c xs
      else (case split_chr c xs of [] \<Rightarrow> [[x]] | y # ys \<Rightarrow> (x # y) # ys))"

text \<open>\<open>s.find(sub)\<close>: the first index where \<open>sub\<close> starts, \<open>None\<close> for Python's \<open>-1\<close>.\<close>

fun find_from :: "string \<Rightarrow> string \<Rightarrow> nat \<Rightarrow> nat option" where
  "find_from sub [] i = (if sub = [] then Some i else None)"
| "find_from sub (c # cs) i =
     (if startswith (c # cs) sub then Some i else find_from sub cs (Suc i))"

definition find :: "string \<Rightarrow> string \<Rightarrow> nat option" where
  "find s sub = find_from sub s 0"

text \<open>\<open>str(n)\<close> for an \<open>int\<close>.\<close>

definition digit_chr :: "nat \<Rightarrow> char" where
  "digit_chr d = char_of (of_char CHR ''0'' + d)"

fun str_nat :: "nat \<Rightarrow> string" where
  "str_nat n = (if n < 10 then [digit_chr n] else str_nat (n div 10) @ [digit_chr (n mod 10)])"

definition str_int :: "int \<Rightarrow> string" where
  "str_int i = (if i < 0 then CHR ''-'' # str_nat (nat (- i)) else str_nat (nat i))"

text \<open>
  A file opened in text mode is read with universal newlines: \<open>\r\n\<close> and \<open>\r\<close> arrive as
  \<open>\n\<close>. Written text is stored as it is (\<open>os.linesep\<close> is \<open>\n\<close>).
\<close>

fun universal_newlines :: "string \<Rightarrow> string" where
  "universal_newlines [] = []"
| "universal_newlines [c] = (if c = CR then [LF] else [c])"
| "universal_newlines (c # d # cs) =
     (if c = CR \<and> d = LF then LF # universal_newlines cs
      else if c = CR then LF # universal_newlines (d # cs)
      else c # universal_newlines (d # cs))"

text \<open>\<open>file.readlines()\<close>: the lines of the text, each with its \<open>\n\<close>.\<close>

fun lines_from :: "string \<Rightarrow> string \<Rightarrow> string list" where
  "lines_from cur [] = (if cur = [] then [] else [cur])"
| "lines_from cur (c # cs) =
     (if c = LF then (cur @ [c]) # lines_from [] cs else lines_from (cur @ [c]) cs)"

definition readlines :: "string \<Rightarrow> string list" where
  "readlines content = lines_from [] (universal_newlines content)"

text \<open>
  The runtime directory (\<open>XDG_RUNTIME_DIR\<close>, taken to be set): its entries by name, in the
  order \<open>os.listdir\<close> gives them. An entry is a regular file with its text or something
  else (a directory, a socket).
\<close>

datatype node = File string | Other

type_synonym directory = "(string \<times> node) list"

definition listdir :: "directory \<Rightarrow> string list" where
  "listdir d = map fst d"

definition isfile :: "directory \<Rightarrow> string \<Rightarrow> bool" where
  "isfile d name = (case map_of d name of Some (File content) \<Rightarrow> True | _ \<Rightarrow> False)"

definition read_file :: "directory \<Rightarrow> string \<Rightarrow> string" where
  "read_file d name = (case map_of d name of Some (File content) \<Rightarrow> content | _ \<Rightarrow> [])"

definition write_file :: "directory \<Rightarrow> string \<Rightarrow> string \<Rightarrow> error + directory" where
  "write_file d name content =
     (case map_of d name of
        Some Other \<Rightarrow> Inl OSError
      | _ \<Rightarrow> Inr (AList.update name (File content) d))"

definition remove_file :: "directory \<Rightarrow> string \<Rightarrow> error + directory" where
  "remove_file d name =
     (case map_of d name of
        Some (File content) \<Rightarrow> Inr (AList.delete name d)
      | Some Other \<Rightarrow> Inl OSError
      | None \<Rightarrow> Inl FileNotFoundError)"

text \<open>\<^verbatim>\<open>{l.strip() for l in open_cleanup_file.readlines() if l.strip()}\<close>\<close>

definition cleanup_file_varnames :: "string \<Rightarrow> string set" where
  "cleanup_file_varnames content = set (filter (\<lambda>l. l \<noteq> []) (map strip (readlines content)))"

section \<open>The service manager\<close>

text \<open>
  The state the functions work on: the environment block of the systemd user manager, the
  activation environment of the D-Bus daemon, the \<open>Id\<close> of the unit behind \<open>dbus.service\<close>,
  and the runtime directory.
\<close>

record state =
  sd_env :: env
  dbus_env :: env
  dbus_unit :: string
  rt_dir :: directory

definition get_systemd_vars :: "state \<Rightarrow> env" where
  "get_systemd_vars s = sd_env s"

text \<open>\<open>UpdateActivationEnvironment\<close> and \<open>SetEnvironment\<close> add or replace the given variables.\<close>

definition set_dbus_vars :: "env \<Rightarrow> state \<Rightarrow> state" where
  "set_dbus_vars vars_dict s = s\<lparr>dbus_env := dbus_env s ++ vars_dict\<rparr>"

definition blank_dbus_vars :: "string set \<Rightarrow> state \<Rightarrow> state" where
  "blank_dbus_vars vars_list s =
     s\<lparr>dbus_env := (\<lambda>var. if var \<in> vars_list then Some [] else dbus_env s var)\<rparr>"

definition set_systemd_vars :: "env \<Rightarrow> state \<Rightarrow> state" where
  "set_systemd_vars vars_dict s =
     (let s1 = (if dbus_unit s \<noteq> ''dbus-broker.service'' then set_dbus_vars vars_dict s else s)
      in s1\<lparr>sd_env := sd_env s1 ++ vars_dict\<rparr>)"

text \<open>\<open>UnsetEnvironment\<close> drops the given names.\<close>

definition unset_systemd_vars :: "string set \<Rightarrow> state \<Rightarrow> state" where
  "unset_systemd_vars vars_list s =
     (let s1 = (if dbus_unit s \<noteq> ''dbus-broker.service'' then blank_dbus_vars vars_list s else s)
      in s1\<lparr>sd_env := (\<lambda>var. if var \<in> vars_list then None else sd_env s1 var)\<rparr>)"

section \<open>class Varnames\<close>

definition always_export :: "string set" where
  "always_export = {''XDG_SESSION_ID'', ''XDG_SESSION_TYPE'', ''XDG_VTNR'', ''XDG_CURRENT_DESKTOP'',
     ''XDG_SESSION_DESKTOP'', ''XDG_MENU_PREFIX'', ''PATH''}"

definition never_export :: "string set" where
  "never_export = {''PWD'', ''LS_COLORS'', ''INVOCATION_ID'', ''SHLVL'', ''SHELL''}"

definition always_unset :: "string set" where
  "always_unset = {''DISPLAY'', ''WAYLAND_DISPLAY''}"

definition always_cleanup :: "string set" where
  "always_cleanup = {''DISPLAY'', ''WAYLAND_DISPLAY'', ''XDG_SESSION_ID'', ''XDG_SESSION_TYPE'',
     ''XDG_VTNR'', ''XDG_CURRENT_DESKTOP'', ''XDG_SESSION_DESKTOP'', ''XDG_MENU_PREFIX'', ''PATH'',
     ''XCURSOR_THEME'', ''XCURSOR_SIZE'', ''LANG''}"

definition never_cleanup :: "string set" where
  "never_cleanup = {''SSH_AGENT_LAUNCHER'', ''SSH_AUTH_SOCK'', ''SSH_AGENT_PID''}"

section \<open>prepare_env: the difference of two environments\<close>

text \<open>\<^verbatim>\<open>set_env = dict(set(env_post.items()) - set(env_pre.items()))\<close>\<close>

definition raw_difference :: "env \<Rightarrow> env \<Rightarrow> env" where
  "raw_difference env_post env_pre =
     (\<lambda>var. case env_post var of
        None \<Rightarrow> None
      | Some v \<Rightarrow> if env_pre var = Some v then None else Some v)"

text \<open>
  \<^verbatim>\<open>for var in sorted(Varnames.always_export - Varnames.never_export - Varnames.always_unset):\<close>
  \<^verbatim>\<open>    if var in env_post: set_env.update({var: env_post[var]})\<close>
\<close>

fun force_export :: "env \<Rightarrow> string list \<Rightarrow> env \<Rightarrow> env" where
  "force_export env_post [] set_env = set_env"
| "force_export env_post (var # vars) set_env =
     force_export env_post vars
       (case env_post var of Some v \<Rightarrow> set_env(var \<mapsto> v) | None \<Rightarrow> set_env)"

text \<open>
  \<^verbatim>\<open>for var in Varnames.never_export | Varnames.always_unset:\<close>
  \<^verbatim>\<open>    if var in set_env: set_env.pop(var)\<close>
  A Python set is iterated in no particular order; the model takes the sorted one
  (\<open>exclude_export_set\<close> below shows that the order does not matter).
\<close>

fun exclude_export :: "string list \<Rightarrow> env \<Rightarrow> env" where
  "exclude_export [] set_env = set_env"
| "exclude_export (var # vars) set_env =
     exclude_export vars (if var \<in> dom set_env then set_env(var := None) else set_env)"

definition set_env_of :: "env \<Rightarrow> env \<Rightarrow> env" where
  "set_env_of env_pre env_post =
     exclude_export (sorted_list_of_set (never_export \<union> always_unset))
       (force_export env_post
          (sorted_list_of_set (always_export - never_export - always_unset))
          (raw_difference env_post env_pre))"

text \<open>
  \<^verbatim>\<open>unset_varnames = set(env_pre.keys()) - set(env_post.keys())\<close>
  \<^verbatim>\<open>unset_varnames = unset_varnames | set(Varnames.always_unset)\<close>
  \<^verbatim>\<open>unset_varnames = unset_varnames & systemd_varnames\<close>
\<close>

definition unset_varnames_of :: "env \<Rightarrow> env \<Rightarrow> string set \<Rightarrow> string set" where
  "unset_varnames_of env_pre env_post systemd_varnames =
     ((dom env_pre - dom env_post) \<union> always_unset) \<inter> systemd_varnames"

text \<open>
  \<^verbatim>\<open>cleanup_varnames = (set(set_env.keys()) | Varnames.always_cleanup - Varnames.never_cleanup)\<close>
  In Python \<open>-\<close> binds tighter than \<open>|\<close>.
\<close>

definition cleanup_varnames_of :: "env \<Rightarrow> string set" where
  "cleanup_varnames_of set_env = dom set_env \<union> (always_cleanup - never_cleanup)"

text \<open>The export set in the words of the specification, as a set of key/value pairs.\<close>

definition spec_toSet :: "env \<Rightarrow> env \<Rightarrow> (string \<times> string) set" where
  "spec_toSet pre post =
     ((Map.graph post - Map.graph pre) \<union> {(k, v). k \<in> always_export \<and> post k = Some v})
       - {(k, v). k \<in> never_export \<union> always_unset}"

section \<open>prepare_env\<close>

text \<open>
  What \<open>prepare_env\<close> obtains from outside: the foreground VT (\<open>get_fg_vt\<close>), the login
  session on it (\<open>get_session_by_vt\<close>), the random mark, and the standard output and return
  code of the shell that ran the generated script.
\<close>

record prepare_input =
  v_term :: "int option"
  session_id :: "int option"
  random_mark :: string
  sprc_stdout :: string
  sprc_returncode :: int

text \<open>
  \<^verbatim>\<open>for env in stdout.split("\0"):\<close>
  \<^verbatim>\<open>    env = env.split("=", maxsplit=1)\<close>
  \<^verbatim>\<open>    if len(env) == 2: env_post.update({env[0]: env[1]})\<close>
\<close>

fun parse_env :: "string list \<Rightarrow> env \<Rightarrow> env" where
  "parse_env [] env_post = env_post"
| "parse_env (e # es) env_post =
     parse_env es
       (if CHR ''='' \<in> set e
        then env_post(takeWhile (\<lambda>c. c \<noteq> CHR ''='') e \<mapsto> tl (dropWhile (\<lambda>c. c \<noteq> CHR ''='') e))
        else env_post)"

definition cleanup_file_name :: "string \<Rightarrow> string" where
  "cleanup_file_name wm_id = ''env_names_for_cleanup_'' @ wm_id"

text \<open>The environment handed to the shell: the manager's, filtered, with the two overrides.\<close>

definition env_pre_of :: "state \<Rightarrow> int \<Rightarrow> int \<Rightarrow> env" where
  "env_pre_of s vt sid =
     (filter_varnames (get_systemd_vars s))
       (''XDG_VTNR'' \<mapsto> str_int vt, ''XDG_SESSION_ID'' \<mapsto> str_int sid)"

text \<open>The environment the shell printed after the mark, filtered.\<close>

definition env_post_of :: "string \<Rightarrow> string \<Rightarrow> nat \<Rightarrow> env" where
  "env_post_of stdout mark mark_position =
     filter_varnames
       (parse_env
          (split_chr NUL
             (rev (dropWhile (\<lambda>c. c = NUL) (rev (drop (mark_position + length mark) stdout)))))
          Map.empty)"

text \<open>
  The first part of \<open>prepare_env\<close>, up to the three sets it computes: the variables to
  export, the names to unset and the names to clean up at stop.
\<close>

definition prepare_env_sets ::
  "prepare_input \<Rightarrow> state \<Rightarrow> error + (env \<times> string set \<times> string set)" where
  "prepare_env_sets inp s =
     (let systemd_varnames = dom (filter_varnames (get_systemd_vars s)) in
      case v_term inp of
        None \<Rightarrow> Inl RuntimeError
      | Some vt \<Rightarrow>
      (case session_id inp of
        None \<Rightarrow> Inl RuntimeError
      | Some sid \<Rightarrow>
      (let env_pre = env_pre_of s vt sid in
       case find (sprc_stdout inp) (random_mark inp) of
         None \<Rightarrow> Inl RuntimeError
       | Some mark_position \<Rightarrow>
       if sprc_returncode inp \<noteq> 0 then Inl RuntimeError
       else
        (let env_post = env_post_of (sprc_stdout inp) (random_mark inp) mark_position;
             set_env = set_env_of env_pre env_post;
             unset_varnames = unset_varnames_of env_pre env_post systemd_varnames;
             cleanup_varnames = cleanup_varnames_of set_env
         in Inr (set_env, unset_varnames, cleanup_varnames)))))"

text \<open>
  The second part: the cleanup file is rewritten with the names it held and the new ones,
  then the manager is told. \<open>wm_id\<close> is the global set by \<open>fill_wm_globals\<close>, which accepts
  \<open>[a-zA-Z0-9_:.-]+\<close> only, so the cleanup file is an entry of the runtime directory itself.
\<close>

definition prepare_env :: "string \<Rightarrow> prepare_input \<Rightarrow> state \<Rightarrow> error + state" where
  "prepare_env wm_id inp s =
     (case prepare_env_sets inp s of
        Inl e \<Rightarrow> Inl e
      | Inr (set_env, unset_varnames, cleanup_varnames) \<Rightarrow>
        (let cleanup_file = cleanup_file_name wm_id;
             current_cleanup_varnames =
               (if isfile (rt_dir s) cleanup_file
                then cleanup_file_varnames (read_file (rt_dir s) cleanup_file)
                else {})
         in case write_file (rt_dir s) cleanup_file
                  (join [LF] (sorted_list_of_set (current_cleanup_varnames \<union> cleanup_varnames))) of
              Inl e \<Rightarrow> Inl e
            | Inr d \<Rightarrow>
               (let s1 = set_systemd_vars set_env (s\<lparr>rt_dir := d\<rparr>)
                in Inr (if unset_varnames \<noteq> {} then unset_systemd_vars unset_varnames s1 else s1))))"

section \<open>cleanup_env\<close>

text \<open>
  \<^verbatim>\<open>for cleanup_file in os.listdir(cleanup_file_dir):\<close>
  \<^verbatim>\<open>    if not cleanup_file.startswith("env_names_for_cleanup_"): continue\<close>
  \<^verbatim>\<open>    if os.path.isfile(cleanup_file): cleanup_files.append(cleanup_file)\<close>
\<close>

definition find_cleanup_files :: "directory \<Rightarrow> string list" where
  "find_cleanup_files d =
     filter (\<lambda>cleanup_file. startswith cleanup_file ''env_names_for_cleanup_'' \<and> isfile d cleanup_file)
       (listdir d)"

fun read_cleanup_files :: "directory \<Rightarrow> string list \<Rightarrow> string set \<Rightarrow> string set" where
  "read_cleanup_files d [] current_cleanup_varnames = current_cleanup_varnames"
| "read_cleanup_files d (cleanup_file # cleanup_files) current_cleanup_varnames =
     read_cleanup_files d cleanup_files
       (if isfile d cleanup_file
        then current_cleanup_varnames \<union> cleanup_file_varnames (read_file d cleanup_file)
        else current_cleanup_varnames)"

fun remove_cleanup_files :: "string list \<Rightarrow> directory \<Rightarrow> error + directory" where
  "remove_cleanup_files [] d = Inr d"
| "remove_cleanup_files (cleanup_file # cleanup_files) d =
     (case remove_file d cleanup_file of
        Inl e \<Rightarrow> Inl e
      | Inr d' \<Rightarrow> remove_cleanup_files cleanup_files d')"

text \<open>
  \<^verbatim>\<open>cleanup_varnames = (current_cleanup_varnames\<close>
  \<^verbatim>\<open>    | Varnames.always_cleanup - Varnames.never_cleanup & systemd_varnames)\<close>
  In Python \<open>-\<close> binds tighter than \<open>&\<close>, and \<open>&\<close> tighter than \<open>|\<close>.
\<close>

definition cleanup_varnames_at_stop :: "string set \<Rightarrow> string set \<Rightarrow> string set" where
  "cleanup_varnames_at_stop current_cleanup_varnames systemd_varnames =
     current_cleanup_varnames \<union> ((always_cleanup - never_cleanup) \<inter> systemd_varnames)"

definition cleanup_env :: "state \<Rightarrow> error + (bool \<times> state)" where
  "cleanup_env s =
     (let cleanup_files = find_cleanup_files (rt_dir s) in
      if cleanup_files = [] then Inr (False, s)
      else
       (let current_cleanup_varnames = read_cleanup_files (rt_dir s) cleanup_files {};
            systemd_varnames = dom (get_systemd_vars s);
            cleanup_varnames = cleanup_varnames_at_stop current_cleanup_varnames systemd_varnames;
            s1 = (if cleanup_varnames \<noteq> {} then unset_systemd_vars cleanup_varnames s else s)
        in case remove_cleanup_files cleanup_files (rt_dir s1) of
             Inl e \<Rightarrow> Inl e
           | Inr d \<Rightarrow> Inr (True, s1\<lparr>rt_dir := d\<rparr>)))"

text \<open>The names held by the cleanup files that \<open>cleanup_env\<close> finds.\<close>

definition manifest_names :: "directory \<Rightarrow> string set" where
  "manifest_names d =
     (\<Union>f \<in> set (find_cleanup_files d). cleanup_file_varnames (read_file d f))"

text \<open>A manager that holds \<open>PATH\<close>, and a runtime directory without cleanup files.\<close>

definition s_no_manifest :: state where
  "s_no_manifest = \<lparr>sd_env = [''PATH'' \<mapsto> ''/usr/bin''], dbus_env = Map.empty,
     dbus_unit = ''dbus-broker.service'', rt_dir = []\<rparr>"

text \<open>
  A name that a cleanup file gives back as it was written: not empty, no white space at
  its ends, no line break inside.
\<close>

definition clean_name :: "string \<Rightarrow> bool" where
  "clean_name n \<longleftrightarrow> n \<noteq> [] \<and> \<not> isspace (hd n) \<and> \<not> isspace (last n) \<and> LF \<notin> set n \<and> CR \<notin> set n"

text \<open>The inputs with which \<open>prepare_env\<close> raises nothing before it writes the cleanup file.\<close>

definition shell_ok :: "prepare_input \<Rightarrow> bool" where
  "shell_ok inp \<longleftrightarrow> v_term inp \<noteq> None \<and> session_id inp \<noteq> None
     \<and> find (sprc_stdout inp) (random_mark inp) \<noteq> None \<and> sprc_returncode inp = 0"

text \<open>\<open>current_cleanup_varnames\<close> of \<open>prepare_env\<close>: the names of the cleanup file, if there is one.\<close>

definition current_names :: "directory \<Rightarrow> string \<Rightarrow> string set" where
  "current_names d f = (if isfile d f then cleanup_file_varnames (read_file d f) else {})"

text \<open>The inputs and states of the examples.\<close>

definition inp_scenario :: prepare_input where
  "inp_scenario = \<lparr>v_term = Some 1, session_id = Some 2,
     random_mark = ''MARK_0123456789abcdef_MARK'',
     sprc_stdout = ''MARK_0123456789abcdef_MARK'' @ ''PATH=/usr/bin'' @ [NUL]
        @ ''WAYLAND_DISPLAY=wayland-1'' @ [NUL],
     sprc_returncode = 0\<rparr>"

definition s_one_manifest :: state where
  "s_one_manifest = \<lparr>sd_env = [''PATH'' \<mapsto> ''/usr/bin'', ''FOO'' \<mapsto> ''1''], dbus_env = Map.empty,
     dbus_unit = ''dbus-broker.service'',
     rt_dir = [(''env_names_for_cleanup_sway'', File (''FOO'' @ [LF] @ ''PATH'')), (''bus'', Other)]\<rparr>"

text \<open>
  \<open>re.search\<close> of a pattern that ends with \<open>\Z\<close> and is free at its start: some suffix of the
  string has to match.
\<close>

fun tails :: "string \<Rightarrow> string list" where
  "tails [] = [[]]"
| "tails (c # cs) = (c # cs) # tails cs"

definition re_search_Z :: "rx \<Rightarrow> string \<Rightarrow> bool" where
  "re_search_Z r s = list_ex (fullmatch r) (tails s)"

text \<open>A sequence and an alternation of several patterns.\<close>

fun Cats :: "rx list \<Rightarrow> rx" where
  "Cats [] = Eps"
| "Cats [r] = r"
| "Cats (r # rs) = Cat r (Cats rs)"

fun Alts :: "rx list \<Rightarrow> rx" where
  "Alts [] = Null"
| "Alts [r] = r"
| "Alts (r # rs) = Alt r (Alts rs)"

text \<open>\<open>.\<close> without \<open>re.DOTALL\<close>: any character but the newline.\<close>

definition cls_dot :: "char \<Rightarrow> bool" where
  "cls_dot c \<longleftrightarrow> c \<noteq> LF"

text \<open>\<open>[a-zA-Z0-9_:.\\-]\<close>: the class holds the backslash and the hyphen.\<close>

definition cls_unit :: "char \<Rightarrow> bool" where
  "cls_unit c \<longleftrightarrow>
     char_in CHR ''a'' CHR ''z'' c \<or> char_in CHR ''A'' CHR ''Z'' c \<or> char_in CHR ''0'' CHR ''9'' c
     \<or> c = CHR ''_'' \<or> c = CHR '':'' \<or> c = CHR ''.'' \<or> c = CHR 0x5C \<or> c = CHR ''-''"

text \<open>
  \<^verbatim>\<open>unit_ext = re.compile(\<close>
  \<^verbatim>\<open>  r"[a-zA-Z0-9_:.\\-]+@?\.(service|slice|scope|target|socket|d/[a-zA-Z0-9_:.\\-]+.conf)\Z",\<close>
  \<^verbatim>\<open>  re.MULTILINE)\<close>
\<close>

definition unit_ext :: rx where
  "unit_ext =
     Cats [Plus (Cls cls_unit), Opt (Chr CHR ''@''), Chr CHR ''.'',
           Alts [Lit ''service'', Lit ''slice'', Lit ''scope'', Lit ''target'', Lit ''socket'',
                 Cats [Lit ''d/'', Plus (Cls cls_unit), Cls cls_dot, Lit ''conf'']]]"

section \<open>os.path\<close>

definition isabs :: "string \<Rightarrow> bool" where
  "isabs p \<longleftrightarrow> startswith p ''/''"

text \<open>\<open>posixpath.join\<close> of two paths.\<close>

definition path_join :: "string \<Rightarrow> string \<Rightarrow> string" where
  "path_join a b =
     (if startswith b ''/'' then b
      else if a = [] \<or> endswith a ''/'' then a @ b
      else a @ ''/'' @ b)"

text \<open>
  \<open>posixpath.normpath\<close>: empty and \<open>.\<close> components go, \<open>..\<close> takes the component before it
  away where there is one.
\<close>

fun norm_comps :: "bool \<Rightarrow> string list \<Rightarrow> string list \<Rightarrow> string list" where
  "norm_comps initial_slashes [] new_comps = new_comps"
| "norm_comps initial_slashes (component # comps) new_comps =
     norm_comps initial_slashes comps
       (if component = [] \<or> component = ''.'' then new_comps
        else if component \<noteq> ''..'' \<or> (\<not> initial_slashes \<and> new_comps = [])
                \<or> (new_comps \<noteq> [] \<and> last new_comps = ''..'')
             then new_comps @ [component]
        else if new_comps \<noteq> [] then butlast new_comps
        else new_comps)"

definition normpath :: "string \<Rightarrow> string" where
  "normpath path =
     (if path = [] then ''.''
      else
       (let initial_slashes =
              (if startswith path ''/''
               then (if startswith path ''//'' \<and> \<not> startswith path ''///'' then 2 else 1)
               else (0::nat));
            comps = norm_comps (initial_slashes \<noteq> 0) (split_chr CHR ''/'' path) [];
            p = replicate initial_slashes CHR ''/'' @ join ''/'' comps
        in if p = [] then ''.'' else p))"

text \<open>\<open>posixpath.dirname\<close> and \<open>posixpath.basename\<close>.\<close>

definition rfind_slash :: "string \<Rightarrow> nat" where
  "rfind_slash p = length p - length (takeWhile (\<lambda>c. c \<noteq> CHR ''/'') (rev p))"

definition dirname :: "string \<Rightarrow> string" where
  "dirname p =
     (let head = take (rfind_slash p) p
      in if head \<noteq> [] \<and> head \<noteq> replicate (length head) CHR ''/''
         then rev (dropWhile (\<lambda>c. c = CHR ''/'') (rev head)) else head)"

definition basename :: "string \<Rightarrow> string" where
  "basename p = drop (rfind_slash p) p"

section \<open>The unit store\<close>

text \<open>
  The file system under the unit functions: the directories by path and the regular files,
  a list of paths with their texts. \<open>os.mkdir\<close>, \<open>os.rmdir\<close>, \<open>os.remove\<close> and the writes are taken to
  succeed. \<open>units_changed\<close> is the global of that name.
\<close>

record unit_state =
  dirs :: "string set"
  files :: "(string \<times> string) list"
  units_changed :: bool

text \<open>
  What the unit functions read from outside: \<open>args.dry_run\<close>, \<open>args.use_session_slice\<close> and
  \<open>XDG_RUNTIME_DIR\<close>
  (\<open>BaseDirectory.get_runtime_dir(strict=True)\<close>, \<open>None\<close> when it raises).
\<close>

record unit_args =
  dry_run :: bool
  use_session_slice :: bool
  runtime_dir :: "string option"

text \<open>A result and the state the call leaves, also when it raises.\<close>

type_synonym 'a outcome = "(error + 'a) \<times> unit_state"

text \<open>\<open>get_unit_path(unit)\<close> with the default category and level.\<close>

definition get_unit_path :: "unit_args \<Rightarrow> string \<Rightarrow> error + (string \<times> string)" where
  "get_unit_path args unit =
     (if isabs unit then Inl RuntimeError
      else
       (case runtime_dir args of
          None \<Rightarrow> Inl (SystemExit 0)
        | Some unit_path \<Rightarrow>
            if unit_path = [] then Inl (SystemExit 0)
            else Inr (normpath (path_join (path_join unit_path ''systemd'') ''user''), normpath unit)))"

text \<open>The directories of \<open>update_unit\<close>: created where missing, unless in a dry run.\<close>

definition check_mkdir :: "unit_args \<Rightarrow> string \<Rightarrow> unit_state \<Rightarrow> unit_state" where
  "check_mkdir args check_dir s =
     (if check_dir \<notin> dirs s \<and> \<not> dry_run args then s\<lparr>dirs := insert check_dir (dirs s)\<rparr> else s)"

fun mkdir_elements :: "unit_args \<Rightarrow> string \<Rightarrow> string list \<Rightarrow> unit_state \<Rightarrow> unit_state" where
  "mkdir_elements args check_dir [] s = s"
| "mkdir_elements args check_dir (path_element # path_elements) s =
     mkdir_elements args (path_join check_dir path_element) path_elements
       (check_mkdir args (path_join check_dir path_element) s)"

text \<open>A text file is read with universal newlines; a written text is stored as it is.\<close>

definition count_slash :: "string \<Rightarrow> nat" where
  "count_slash unit = length (filter (\<lambda>c. c = CHR ''/'') unit)"

definition update_unit :: "unit_args \<Rightarrow> string \<Rightarrow> string \<Rightarrow> unit_state \<Rightarrow> bool outcome" where
  "update_unit args unit data s =
     (if \<not> re_search_Z unit_ext unit then (Inl ValueError, s)
      else
       (case (if isabs unit then Inr (''/'', normpath unit)
              else if count_slash unit > 1 then Inl ValueError
              else get_unit_path args unit) of
          Inl e \<Rightarrow> (Inl e, s)
        | Inr (unit_dir, unit') \<Rightarrow>
           (let unit_path = path_join unit_dir unit';
                s1 = check_mkdir args unit_dir s;
                s2 = mkdir_elements args unit_dir
                       (filter (\<lambda>d. d \<noteq> []) (split_chr CHR ''/'' (dirname unit'))) s1;
                old_data = (case map_of (files s2) unit_path of
                              Some stored \<Rightarrow> universal_newlines stored
                            | None \<Rightarrow> [])
            in if data = old_data then (Inr False, s2)
               else
                (Inr True,
                 (if \<not> dry_run args then s2\<lparr>files := AList.update unit_path data (files s2)\<rparr> else s2)
                   \<lparr>units_changed := True\<rparr>))))"

text \<open>The entries of a directory: the files and directories directly in it, by name.\<close>

definition os_listdir :: "unit_state \<Rightarrow> string \<Rightarrow> string set" where
  "os_listdir s d =
     (let paths = fst ` set (files s) \<union> dirs s
      in Set.filter (\<lambda>name. name \<noteq> [] \<and> CHR ''/'' \<notin> set name \<and> path_join d name \<in> paths)
           (basename ` paths))"

definition remove_unit :: "unit_args \<Rightarrow> string \<Rightarrow> unit_state \<Rightarrow> bool outcome" where
  "remove_unit args unit s =
     (if \<not> re_search_Z unit_ext unit then (Inl ValueError, s)
      else
       (case (if isabs unit then Inr (''/'', normpath unit)
              else if count_slash unit > 1 then Inl ValueError
              else get_unit_path args unit) of
          Inl e \<Rightarrow> (Inl e, s)
        | Inr (unit_dir, unit') \<Rightarrow>
           (let unit_path = path_join unit_dir unit';
                change = (unit_path \<in> fst ` set (files s));
                s1 = (if change
                      then (if \<not> dry_run args then s\<lparr>files := AList.delete unit_path (files s)\<rparr> else s)
                             \<lparr>units_changed := True\<rparr>
                      else s);
                unit_subdir_path = dirname unit_path;
                unit_filename = basename unit_path;
                s2 = (if \<not> isabs unit' \<and> CHR ''/'' \<in> set unit'
                         \<and> unit_subdir_path \<in> dirs s1
                         \<and> os_listdir s1 unit_subdir_path - {unit_filename} = {}
                         \<and> \<not> dry_run args
                      then s1\<lparr>dirs := dirs s1 - {unit_subdir_path}\<rparr> else s1)
            in (Inr change, s2))))"

section \<open>generate_units\<close>

text \<open>
  \<open>BIN_NAME\<close> and \<open>BIN_PATH\<close> come from \<open>uwsm.params\<close>, which is not among the sources: they
  are parameters here.
\<close>

record params =
  BIN_NAME :: string
  BIN_PATH :: string

text \<open>The globals that \<open>fill_wm_globals\<close> sets and \<open>generate_units\<close> reads.\<close>

record wm =
  wm_id :: string
  wm_id_unit_string :: string
  wm_cmdline :: "string list"
  wm_cli_args :: "string list"
  wm_desktop_names :: "string list"
  wm_cli_desktop_names :: "string list"
  wm_cli_desktop_names_exclusive :: bool
  wm_name :: string
  wm_description :: string

text \<open>
  A triple-quoted literal of the source: a newline, the lines, each after \<open>n\<close> blanks, and
  \<open>n\<close> blanks before the closing quotes.
\<close>

definition block :: "nat \<Rightarrow> string list \<Rightarrow> string" where
  "block n ls = LF # concat (map (\<lambda>l. replicate n CHR '' '' @ l @ [LF]) ls) @ replicate n CHR '' ''"

text \<open>
  \<open>textwrap.dedent\<close>: lines of blanks and tabs only become empty, then the longest common
  leading run of blanks and tabs of the other lines is taken off every line that starts
  with it.
\<close>

definition blank_or_tab :: "char \<Rightarrow> bool" where
  "blank_or_tab c \<longleftrightarrow> c = CHR '' '' \<or> c = CHR 0x09"

fun common_prefix :: "string \<Rightarrow> string \<Rightarrow> string" where
  "common_prefix (x # xs) (y # ys) = (if x = y then x # common_prefix xs ys else [])"
| "common_prefix xs ys = []"

fun margin_of :: "string list \<Rightarrow> string option \<Rightarrow> string option" where
  "margin_of [] margin = margin"
| "margin_of (indent # indents) margin =
     margin_of indents
       (case margin of None \<Rightarrow> Some indent | Some m \<Rightarrow> Some (common_prefix m indent))"

definition textwrap_dedent :: "string \<Rightarrow> string" where
  "textwrap_dedent data =
     (let ls = map (\<lambda>l. if list_all blank_or_tab l then [] else l) (split_chr LF data);
          indents = map (takeWhile blank_or_tab) (filter (\<lambda>l. l \<noteq> []) ls)
      in case margin_of indents None of
           None \<Rightarrow> join [LF] ls
         | Some margin \<Rightarrow>
             join [LF] (map (\<lambda>l. if margin \<noteq> [] \<and> startswith l margin
                                  then drop (length margin) l else l) ls))"

text \<open>
  \<^verbatim>\<open>data = textwrap.dedent(data).lstrip("\n")\<close>
  \<^verbatim>\<open>return data.rstrip() + "\n" if data.endswith("\n") else data.rstrip()\<close>
\<close>

definition dedent :: "string \<Rightarrow> string" where
  "dedent data =
     (let d = dropWhile (\<lambda>c. c = LF) (textwrap_dedent data)
      in if endswith d [LF] then rstrip d @ [LF] else rstrip d)"

text \<open>\<open>shlex.join\<close>: the arguments, each quoted where it needs it, with blanks between.\<close>

definition shlex_safe :: "char \<Rightarrow> bool" where
  "shlex_safe c \<longleftrightarrow> cls_word c \<or> c \<in> set ''@%+=:,./-''"

definition shlex_quote :: "string \<Rightarrow> string" where
  \<open>shlex_quote s =
     (if s = [] then [CHR 0x27, CHR 0x27]
      else if list_all shlex_safe s then s
      else CHR 0x27 # concat (map (\<lambda>c. if c = CHR 0x27 then [CHR 0x27, CHR 0x22, CHR 0x27, CHR 0x22, CHR 0x27] else [c]) s)
             @ [CHR 0x27])\<close>

definition shlex_join :: "string list \<Rightarrow> string" where
  "shlex_join split_command = join '' '' (map shlex_quote split_command)"

text \<open>The texts of the generic units, as \<open>generate_units\<close> writes them.\<close>

definition wayland_session_pre_target :: "params \<Rightarrow> string" where
  \<open>wayland_session_pre_target p =
     dedent (block 12
        [''# injected by '' @ BIN_NAME p @ '', do not edit'',
         ''[Unit]'',
         ''X-UWSM-ID=GENERIC'',
         ''Description=Preparation for session of %I Wayland compositor'',
         ''Documentation=man:systemd.special(7)'',
         ''Requires=basic.target'',
         ''StopWhenUnneeded=yes'',
         ''BindsTo=graphical-session-pre.target'',
         ''Before=graphical-session-pre.target'',
         ''PropagatesStopTo=graphical-session-pre.target''])\<close>

definition wayland_session_target :: "params \<Rightarrow> string" where
  \<open>wayland_session_target p =
     dedent (block 12
        [''# injected by '' @ BIN_NAME p @ '', do not edit'',
         ''[Unit]'',
         ''X-UWSM-ID=GENERIC'',
         ''Description=Session of %I Wayland compositor'',
         ''Documentation=man:systemd.special(7)'',
         ''Requires=wayland-session-pre@%i.target graphical-session-pre.target'',
         ''After=wayland-session-pre@%i.target graphical-session-pre.target'',
         ''StopWhenUnneeded=yes'',
         ''BindsTo=graphical-session.target'',
         ''Before=graphical-session.target'',
         ''PropagatesStopTo=graphical-session.target''])\<close>

definition wayland_session_xdg_autostart_target :: "params \<Rightarrow> string" where
  \<open>wayland_session_xdg_autostart_target p =
     dedent (block 12
        [''# injected by '' @ BIN_NAME p @ '', do not edit'',
         ''[Unit]'',
         ''X-UWSM-ID=GENERIC'',
         ''Description=XDG Autostart for session of %I Wayland compositor'',
         ''Documentation=man:systemd.special(7)'',
         ''Requires=wayland-session@%i.target graphical-session.target'',
         ''After=wayland-session@%i.target graphical-session.target'',
         ''StopWhenUnneeded=yes'',
         ''BindsTo=xdg-desktop-autostart.target'',
         ''Before=xdg-desktop-autostart.target'',
         ''PropagatesStopTo=xdg-desktop-autostart.target''])\<close>

definition wayland_session_shutdown_target :: "params \<Rightarrow> string" where
  \<open>wayland_session_shutdown_target p =
     dedent (block 12
        [''# injected by '' @ BIN_NAME p @ '', do not edit'',
         ''[Unit]'',
         ''X-UWSM-ID=GENERIC'',
         ''Description=Shutdown graphical session units'',
         ''Documentation=man:systemd.special(7)'',
         ''DefaultDependencies=no'',
         ''Conflicts=app-graphical.slice'',
         ''After=app-graphical.slice'',
         ''Conflicts=background-graphical.slice'',
         ''After=background-graphical.slice'',
         ''Conflicts=session-graphical.slice'',
         ''After=session-graphical.slice'',
         ''Conflicts=xdg-desktop-autostart.target'',
         ''After=xdg-desktop-autostart.target'',
         ''# dirty fix of xdg-desktop-portal-gtk.service shudown'',
         ''Conflicts=xdg-desktop-portal-gtk.service'',
         ''After=xdg-desktop-portal-gtk.service'',
         ''Conflicts=graphical-session.target'',
         ''After=graphical-session.target'',
         ''Conflicts=graphical-session-pre.target'',
         ''After=graphical-session-pre.target'',
         ''StopWhenUnneeded=yes''])\<close>

definition wayland_wm_env_service :: "params \<Rightarrow> string \<Rightarrow> string" where
  \<open>wayland_wm_env_service p wayland_wm_slice =
     dedent (block 12
        [''# injected by '' @ BIN_NAME p @ '', do not edit'',
         ''[Unit]'',
         ''X-UWSM-ID=GENERIC'',
         ''Description=Environment preloader for %I'',
         ''Documentation=man:systemd.service(7)'',
         ''BindsTo=wayland-session-pre@%i.target'',
         ''Before=wayland-session-pre@%i.target'',
         ''StopWhenUnneeded=yes'',
         ''CollectMode=inactive-or-failed'',
         ''OnFailure=wayland-session-shutdown.target'',
         ''OnSuccess=wayland-session-shutdown.target'',
         ''[Service]'',
         ''Type=oneshot'',
         ''RemainAfterExit=yes'',
         ''ExecStart='' @ BIN_PATH p @ '' aux prepare-env '' @ [CHR 0x22] @ ''%I'' @ [CHR 0x22],
         ''ExecStop='' @ BIN_PATH p @ '' aux cleanup-env'',
         ''Restart=no'',
         ''SyslogIdentifier='' @ BIN_NAME p @ ''_env-preloader'',
         ''Slice='' @ wayland_wm_slice])\<close>

definition wayland_wm_service :: "params \<Rightarrow> string \<Rightarrow> string" where
  \<open>wayland_wm_service p wayland_wm_slice =
     dedent (block 12
        [''# injected by '' @ BIN_NAME p @ '', do not edit'',
         ''[Unit]'',
         ''X-UWSM-ID=GENERIC'',
         ''Description=Main service for %I'',
         ''Documentation=man:systemd.service(7)'',
         ''BindsTo=wayland-session@%i.target'',
         ''Before=wayland-session@%i.target'',
         ''Requires=wayland-wm-env@%i.service graphical-session-pre.target'',
         ''After=wayland-wm-env@%i.service graphical-session-pre.target'',
         ''Wants=wayland-session-xdg-autostart@%i.target xdg-desktop-autostart.target'',
         ''Before=wayland-session-xdg-autostart@%i.target xdg-desktop-autostart.target app-graphical.slice background-graphical.slice session-graphical.slice'',
         ''PropagatesStopTo=app-graphical.slice background-graphical.slice session-graphical.slice'',
         ''# dirty fix of xdg-desktop-portal-gtk.service shudown'',
         ''PropagatesStopTo=xdg-desktop-portal-gtk.service'',
         ''CollectMode=inactive-or-failed'',
         ''OnFailure=wayland-session-shutdown.target'',
         ''OnSuccess=wayland-session-shutdown.target'',
         ''[Service]'',
         ''# awaits for '' @ [CHR 0x27] @ ''systemd-notify --ready'' @ [CHR 0x27] @ '' from compositor child'',
         ''# should be issued by '' @ [CHR 0x27] @ BIN_NAME p @ '' finalize'' @ [CHR 0x27],
         ''Type=notify'',
         ''NotifyAccess=all'',
         ''ExecStart='' @ BIN_PATH p @ '' aux exec %I'',
         ''Restart=no'',
         ''TimeoutStartSec=10'',
         ''TimeoutStopSec=10'',
         ''SyslogIdentifier='' @ BIN_NAME p @ ''_%I'',
         ''Slice='' @ wayland_wm_slice])\<close>

definition wayland_wm_app_daemon_service :: "params \<Rightarrow> string \<Rightarrow> string" where
  \<open>wayland_wm_app_daemon_service p wayland_wm_slice =
     dedent (block 12
        [''# injected by '' @ BIN_NAME p @ '', do not edit'',
         ''[Unit]'',
         ''X-UWSM-ID=GENERIC'',
         ''Description=Fast application argument generator'',
         ''Documentation=man:systemd.service(7)'',
         ''BindsTo=graphical-session.target'',
         ''CollectMode=inactive-or-failed'',
         ''[Service]'',
         ''Type=exec'',
         ''ExecStart='' @ BIN_PATH p @ '' aux app-daemon'',
         ''Restart=on-failure'',
         ''RestartMode=direct'',
         ''SyslogIdentifier='' @ BIN_NAME p @ ''_app-daemon'',
         ''Slice='' @ wayland_wm_slice])\<close>

definition app_graphical_slice :: "params \<Rightarrow> string" where
  \<open>app_graphical_slice p =
     dedent (block 12
        [''# injected by '' @ BIN_NAME p @ '', do not edit'',
         ''[Unit]'',
         ''X-UWSM-ID=GENERIC'',
         ''Description=User Graphical Application Slice'',
         ''Documentation=man:systemd.special(7)'',
         ''PartOf=graphical-session.target'',
         ''After=graphical-session.target''])\<close>

definition background_graphical_slice :: "params \<Rightarrow> string" where
  \<open>background_graphical_slice p =
     dedent (block 12
        [''# injected by '' @ BIN_NAME p @ '', do not edit'',
         ''[Unit]'',
         ''X-UWSM-ID=GENERIC'',
         ''Description=User Graphical Background Application Slice'',
         ''Documentation=man:systemd.special(7)'',
         ''PartOf=graphical-session.target'',
         ''After=graphical-session.target''])\<close>

definition session_graphical_slice :: "params \<Rightarrow> string" where
  \<open>session_graphical_slice p =
     dedent (block 12
        [''# injected by '' @ BIN_NAME p @ '', do not edit'',
         ''[Unit]'',
         ''X-UWSM-ID=GENERIC'',
         ''Description=User Graphical Session Application Slice'',
         ''Documentation=man:systemd.special(7)'',
         ''PartOf=graphical-session.target'',
         ''After=graphical-session.target''])\<close>

definition slice_tweak_conf :: "params \<Rightarrow> string" where
  \<open>slice_tweak_conf p =
     dedent (block 12
        [''# injected by '' @ BIN_NAME p @ '', do not edit'',
         ''[Unit]'',
         ''# make autostart apps stoppable by target'',
         ''#StopPropagatedFrom=xdg-desktop-autostart.target'',
         ''PartOf=xdg-desktop-autostart.target'',
         ''X-UWSM-ID=GENERIC'',
         ''[Service]'',
         ''# also put them in special graphical app slice'',
         ''Slice=app-graphical.slice''])\<close>

text \<open>The pieces of the two drop-ins of the compositor.\<close>

definition wm_specific_header :: "params \<Rightarrow> wm \<Rightarrow> string" where
  \<open>wm_specific_header p g =
     dedent (block 12
        [''# injected by '' @ BIN_NAME p @ '', do not edit'',
         ''[Unit]'',
         ''X-UWSM-ID='' @ wm_id g])\<close>

definition preloader_description :: "wm \<Rightarrow> string" where
  \<open>preloader_description g =
     dedent (block 16
        [''Description=Environment preloader for '' @ wm_name g])\<close>

definition service_description :: "string \<Rightarrow> string" where
  \<open>service_description description =
     dedent (block 16
        [''Description=Main service for '' @ description])\<close>

definition preloader_exec :: "params \<Rightarrow> string \<Rightarrow> string \<Rightarrow> string" where
  \<open>preloader_exec p prepend appended =
     dedent (block 16
        [''[Service]'',
         ''ExecStart='',
         ''ExecStart='' @ BIN_PATH p @ '' aux prepare-env'' @ prepend @ '' '' @ [CHR 0x22] @ ''%I'' @ [CHR 0x22] @ appended])\<close>

definition service_exec :: "params \<Rightarrow> string \<Rightarrow> string" where
  \<open>service_exec p appended =
     dedent (block 16
        [''[Service]'',
         ''ExecStart='',
         ''ExecStart='' @ BIN_PATH p @ '' aux exec '' @ [CHR 0x22] @ ''%I'' @ [CHR 0x22] @ appended])\<close>

text \<open>
  \<open>generate_units\<close> is a sequence of calls of \<open>update_unit\<close> and \<open>remove_unit\<close>; no call
  depends on what an earlier one returned.
\<close>

datatype unit_call = Update_unit string string | Remove_unit string

definition run_call :: "unit_args \<Rightarrow> unit_call \<Rightarrow> unit_state \<Rightarrow> bool outcome" where
  "run_call args c s =
     (case c of Update_unit unit data \<Rightarrow> update_unit args unit data s
              | Remove_unit unit \<Rightarrow> remove_unit args unit s)"

fun run_calls :: "unit_args \<Rightarrow> unit_call list \<Rightarrow> bool list \<Rightarrow> unit_state \<Rightarrow> (bool list) outcome" where
  "run_calls args [] rs s = (Inr rs, s)"
| "run_calls args (c # cs) rs s =
     (case run_call args c s of
        (Inl e, s') \<Rightarrow> (Inl e, s')
      | (Inr r, s') \<Rightarrow> run_calls args cs (rs @ [r]) s')"

text \<open>The targets, services and slices.\<close>

definition generic_calls :: "params \<Rightarrow> string \<Rightarrow> unit_call list" where
  "generic_calls p wayland_wm_slice =
     [Update_unit ''wayland-session-pre@.target'' (wayland_session_pre_target p),
      Update_unit ''wayland-session@.target'' (wayland_session_target p),
      Update_unit ''wayland-session-xdg-autostart@.target'' (wayland_session_xdg_autostart_target p),
      Update_unit ''wayland-session-shutdown.target'' (wayland_session_shutdown_target p),
      Update_unit ''wayland-wm-env@.service'' (wayland_wm_env_service p wayland_wm_slice),
      Update_unit ''wayland-wm@.service'' (wayland_wm_service p wayland_wm_slice),
      Update_unit ''wayland-wm-app-daemon.service'' (wayland_wm_app_daemon_service p wayland_wm_slice),
      Update_unit ''app-graphical.slice'' (app_graphical_slice p),
      Update_unit ''background-graphical.slice'' (background_graphical_slice p),
      Update_unit ''session-graphical.slice'' (session_graphical_slice p)]"

text \<open>
  The compositor's drop-ins: each is written when something was added to its header, and
  removed otherwise. \<open>wm_cmdline[0]\<close> raises on an empty command line.
\<close>

definition specific_calls :: "params \<Rightarrow> wm \<Rightarrow> error + unit_call list" where
  \<open>specific_calls p g =
     (let wm_specific_preloader = ''wayland-wm-env@'' @ wm_id_unit_string g @ ''.service.d/50_custom.conf'';
          wm_specific_service = ''wayland-wm@'' @ wm_id_unit_string g @ ''.service.d/50_custom.conf'';
          data0 = [wm_specific_header p g];
          preloader_data1 = (if wm_name g \<noteq> [] then data0 @ [preloader_description g] else data0)
      in if wm_cmdline g = []
            \<and> ((wm_name g = [] \<and> wm_description g \<noteq> []) \<or> \<not> wm_cli_desktop_names_exclusive g)
         then Inl IndexError
         else
          (let service_data1 =
                 (if wm_name g \<noteq> [] \<or> wm_description g \<noteq> []
                  then data0 @ [service_description
                         (join '', '' (filter (\<lambda>s. s \<noteq> [])
                            [if wm_name g \<noteq> [] then wm_name g else hd (wm_cmdline g),
                             wm_description g]))]
                  else data0);
               prepend =
                 (if wm_cli_desktop_names_exclusive g
                  then '' -eD '' @ [CHR 0x22] @ join '':'' (wm_cli_desktop_names g) @ [CHR 0x22]
                  else if wm_desktop_names g \<noteq> [hd (wm_cmdline g)]
                  then '' -D '' @ [CHR 0x22] @ join '':'' (wm_desktop_names g) @ [CHR 0x22]
                  else []);
               appended = (if wm_cli_args g \<noteq> [] then '' '' @ shlex_join (wm_cli_args g) else []);
               preloader_data =
                 (if prepend \<noteq> [] \<or> appended \<noteq> []
                  then preloader_data1 @ [preloader_exec p prepend appended] else preloader_data1);
               service_data =
                 (if appended \<noteq> [] then service_data1 @ [service_exec p appended] else service_data1)
           in Inr [if length preloader_data > 1
                   then Update_unit wm_specific_preloader (concat preloader_data)
                   else Remove_unit wm_specific_preloader,
                   if length service_data > 1
                   then Update_unit wm_specific_service (concat service_data)
                   else Remove_unit wm_specific_service]))\<close>

definition tweak_calls :: "params \<Rightarrow> unit_call list" where
  "tweak_calls p = [Update_unit ''app-@autostart.service.d/slice-tweak.conf'' (slice_tweak_conf p)]"

definition generate_units :: "params \<Rightarrow> unit_args \<Rightarrow> wm \<Rightarrow> unit_state \<Rightarrow> (bool list) outcome" where
  "generate_units p args g s =
     (let wayland_wm_slice = (if use_session_slice args then ''session.slice'' else ''app.slice'')
      in case run_calls args (generic_calls p wayland_wm_slice) [] (s\<lparr>units_changed := False\<rparr>) of
           (Inl e, s1) \<Rightarrow> (Inl e, s1)
         | (Inr rs, s1) \<Rightarrow>
            (case specific_calls p g of
               Inl e \<Rightarrow> (Inl e, s1)
             | Inr calls \<Rightarrow> run_calls args (calls @ tweak_calls p) rs s1))"

text \<open>The descriptor, parameters and stores of the examples.\<close>

definition g_sway :: wm where
  "g_sway = \<lparr>wm_id = ''sway'', wm_id_unit_string = ''sway'', wm_cmdline = [''sway''],
     wm_cli_args = [], wm_desktop_names = [''sway''], wm_cli_desktop_names = [],
     wm_cli_desktop_names_exclusive = False, wm_name = [], wm_description = []\<rparr>"

definition p_uwsm :: params where
  "p_uwsm = \<lparr>BIN_NAME = ''uwsm'', BIN_PATH = ''/usr/bin/uwsm''\<rparr>"

definition args_run :: unit_args where
  "args_run = \<lparr>dry_run = False, use_session_slice = False, runtime_dir = Some ''/run/user/1000''\<rparr>"

definition args_dry :: unit_args where
  "args_dry = \<lparr>dry_run = True, use_session_slice = False, runtime_dir = Some ''/run/user/1000''\<rparr>"

definition store_empty :: unit_state where
  "store_empty = \<lparr>dirs = {''/run/user/1000'', ''/run/user/1000/systemd''}, files = [],
     units_changed = False\<rparr>"

text \<open>The calls of \<open>generate_units\<close> in their order, and the units it passes to \<open>update_unit\<close>.\<close>

fun is_update :: "unit_call \<Rightarrow> bool" where
  "is_update (Update_unit unit data) = True"
| "is_update (Remove_unit unit) = False"

fun call_unit :: "unit_call \<Rightarrow> string" where
  "call_unit (Update_unit unit data) = unit"
| "call_unit (Remove_unit unit) = unit"

definition generate_units_calls :: "params \<Rightarrow> unit_args \<Rightarrow> wm \<Rightarrow> error + unit_call list" where
  "generate_units_calls p args g =
     (case specific_calls p g of
        Inl e \<Rightarrow> Inl e
      | Inr calls \<Rightarrow>
          Inr (generic_calls p (if use_session_slice args then ''session.slice'' else ''app.slice'')
               @ calls @ tweak_calls p))"

definition emitted_units :: "params \<Rightarrow> unit_args \<Rightarrow> wm \<Rightarrow> string list" where
  "emitted_units p args g =
     (case generate_units_calls p args g of
        Inl e \<Rightarrow> []
      | Inr calls \<Rightarrow> map call_unit (filter is_update calls))"

section \<open>gen_entry_args\<close>

text \<open>Python's list operations with an index that may be negative.\<close>

definition py_index :: "'a list \<Rightarrow> int \<Rightarrow> nat option" where
  "py_index xs i =
     (let j = (if i < 0 then i + int (length xs) else i)
      in if 0 \<le> j \<and> j < int (length xs) then Some (nat j) else None)"

definition py_pop :: "'a list \<Rightarrow> int \<Rightarrow> error + 'a list" where
  "py_pop xs i = (case py_index xs i of None \<Rightarrow> Inl IndexError
                                     | Some j \<Rightarrow> Inr (take j xs @ drop (Suc j) xs))"

definition py_setitem :: "'a list \<Rightarrow> int \<Rightarrow> 'a \<Rightarrow> error + 'a list" where
  "py_setitem xs i x = (case py_index xs i of None \<Rightarrow> Inl IndexError
                                           | Some j \<Rightarrow> Inr (xs[j := x]))"

definition py_insert :: "'a list \<Rightarrow> int \<Rightarrow> 'a \<Rightarrow> 'a list" where
  "py_insert xs i x =
     (let j = (if i < 0 then max 0 (i + int (length xs)) else min i (int (length xs)))
      in take (nat j) xs @ x # drop (nat j) xs)"

text \<open>
  \<open>path2url\<close> asks \<open>urllib.parse\<close> for the scheme of its argument and for the quoted path;
  the two functions of the library are parameters.
\<close>

record urllib =
  urlparse_scheme :: "string \<Rightarrow> string"
  quote :: "string \<Rightarrow> string"

definition path2url :: "urllib \<Rightarrow> string \<Rightarrow> string" where
  "path2url u arg = (if urlparse_scheme u arg \<noteq> [] then arg else ''file:'' @ quote u arg)"

text \<open>
  What \<open>gen_entry_args\<close> takes from the desktop entry: \<open>shlex.split(entry_dict["Exec"])\<close>,
  \<open>entry_dict["Icon"]\<close>, \<open>entry.getName()\<close> and \<open>entry.getFileName()\<close>.
\<close>

record entry_keys =
  entry_argv :: "string list"
  entry_icon :: string
  entry_name :: string
  entry_file_name :: string

text \<open>The variables of the loop over the arguments of the entry.\<close>

record fields_state =
  entry_args :: "string list"
  expand :: int
  encountered_fu :: string

text \<open>\<^verbatim>\<open>for arg in args: entry_args.insert(idx + expand, arg); expand += 1\<close>\<close>

fun insert_args :: "int \<Rightarrow> string list \<Rightarrow> fields_state \<Rightarrow> fields_state" where
  "insert_args idx [] st = st"
| "insert_args idx (arg # args) st =
     insert_args idx args
       (st\<lparr>entry_args := py_insert (entry_args st) (idx + expand st) arg, expand := expand st + 1\<rparr>)"

text \<open>The field is popped, and \<open>expand\<close> goes down by one.\<close>

definition pop_field :: "int \<Rightarrow> fields_state \<Rightarrow> error + fields_state" where
  "pop_field idx st =
     (case py_pop (entry_args st) (idx + expand st) of
        Inl e \<Rightarrow> Inl e
      | Inr xs \<Rightarrow> Inr (st\<lparr>entry_args := xs, expand := expand st - 1\<rparr>))"

text \<open>One round of the loop, for the argument \<open>entry_arg\<close> at \<open>idx\<close> of the copy.\<close>

definition field_step ::
  "urllib \<Rightarrow> entry_keys \<Rightarrow> string list \<Rightarrow> int \<Rightarrow> string \<Rightarrow> fields_state \<Rightarrow> error + fields_state" where
  "field_step u entry args idx entry_arg st =
     (if entry_arg = ''%f'' then
        (if encountered_fu st \<noteq> [] then Inl RuntimeError
         else
          (let st = st\<lparr>encountered_fu := entry_arg\<rparr>
           in if length args \<le> 1 then
                (case pop_field idx st of
                   Inl e \<Rightarrow> Inl e
                 | Inr st \<Rightarrow> Inr (if args \<noteq> [] then insert_args idx [hd args] st else st))
              else Inr st))
      else if entry_arg = ''%F'' then
        (if encountered_fu st \<noteq> [] then Inl RuntimeError
         else
          (case pop_field idx (st\<lparr>encountered_fu := entry_arg\<rparr>) of
             Inl e \<Rightarrow> Inl e
           | Inr st \<Rightarrow> Inr (insert_args idx args st)))
      else if entry_arg = ''%u'' then
        (if encountered_fu st \<noteq> [] then Inl RuntimeError
         else
          (let st = st\<lparr>encountered_fu := entry_arg\<rparr>
           in if length args \<le> 1 then
                (case pop_field idx st of
                   Inl e \<Rightarrow> Inl e
                 | Inr st \<Rightarrow> Inr (if args \<noteq> [] then insert_args idx [path2url u (hd args)] st else st))
              else Inr st))
      else if entry_arg = ''%U'' then
        (if encountered_fu st \<noteq> [] then Inl RuntimeError
         else
          (case pop_field idx (st\<lparr>encountered_fu := entry_arg\<rparr>) of
             Inl e \<Rightarrow> Inl e
           | Inr st \<Rightarrow> Inr (insert_args idx (map (path2url u) args) st)))
      else if entry_arg = ''%c'' then
        (case py_setitem (entry_args st) (idx + expand st) (entry_name entry) of
           Inl e \<Rightarrow> Inl e
         | Inr xs \<Rightarrow> Inr (st\<lparr>entry_args := xs\<rparr>))
      else if entry_arg = ''%k'' then
        (case py_setitem (entry_args st) (idx + expand st) (entry_file_name entry) of
           Inl e \<Rightarrow> Inl e
         | Inr xs \<Rightarrow> Inr (st\<lparr>entry_args := xs\<rparr>))
      else if entry_arg = ''%i'' then
        (if entry_icon entry \<noteq> [] then
           (case py_setitem (entry_args st) (idx + expand st) ''--icon'' of
              Inl e \<Rightarrow> Inl e
            | Inr xs \<Rightarrow>
                Inr (st\<lparr>entry_args := py_insert xs (idx + expand st + 1) (entry_icon entry),
                        expand := expand st + 1\<rparr>))
         else pop_field idx st)
      else Inr st)"

text \<open>\<^verbatim>\<open>for idx, entry_arg in enumerate(entry_args.copy()):\<close>\<close>

fun fields_loop ::
  "urllib \<Rightarrow> entry_keys \<Rightarrow> string list \<Rightarrow> int \<Rightarrow> string list \<Rightarrow> fields_state \<Rightarrow> error + fields_state" where
  "fields_loop u entry args idx [] st = Inr st"
| "fields_loop u entry args idx (entry_arg # rest) st =
     (case field_step u entry args idx entry_arg st of
        Inl e \<Rightarrow> Inl e
      | Inr st' \<Rightarrow> fields_loop u entry args (idx + 1) rest st')"

text \<open>\<open>xs.index(x)\<close>\<close>

fun list_index :: "'a list \<Rightarrow> 'a \<Rightarrow> nat option" where
  "list_index [] x = None"
| "list_index (y # ys) x = (if y = x then Some 0 else map_option Suc (list_index ys x))"

text \<open>The rendered arguments: one list, or one list for each instance to run.\<close>

datatype rendered = Single "string list" | Iterated "string list list"

text \<open>
  \<open>gen_entry_args(entry, args, entry_action)\<close>. The first argument is what
  \<open>entry_action_keys\<close> and \<open>shlex.split\<close> gave, or the error they raised; \<open>entry_action\<close>
  only chooses between two messages of the same error.
\<close>

definition gen_entry_args ::
  "urllib \<Rightarrow> error + entry_keys \<Rightarrow> string list \<Rightarrow> error + (string \<times> rendered)" where
  "gen_entry_args u entry_or_error args =
     (case entry_or_error of
        Inl e \<Rightarrow> Inl e
      | Inr entry \<Rightarrow>
       (case entry_argv entry of
          [] \<Rightarrow> Inl IndexError
        | entry_cmd # entry_args0 \<Rightarrow>
         (case fields_loop u entry args 0 entry_args0
                 \<lparr>entry_args = entry_args0, expand = 0, encountered_fu = []\<rparr> of
            Inl e \<Rightarrow> Inl e
          | Inr st \<Rightarrow>
             if args \<noteq> [] \<and> encountered_fu st = [] then Inl RuntimeError
             else if length args > 1 \<and> encountered_fu st \<in> {''%f'', ''%u''} then
               (case list_index (entry_args st) (encountered_fu st) of
                  None \<Rightarrow> Inl ValueError
                | Some field_index \<Rightarrow>
                    Inr (entry_cmd,
                         Iterated (map (\<lambda>arg. (entry_args st)
                                      [field_index := (if encountered_fu st = ''%u''
                                                       then path2url u arg else arg)]) args)))
             else Inr (entry_cmd, Single (entry_args st)))))"

text \<open>The four fields of which a template may hold one.\<close>

definition is_fu :: "string \<Rightarrow> bool" where
  "is_fu entry_arg \<longleftrightarrow> entry_arg \<in> {''%f'', ''%F'', ''%u'', ''%U''}"

definition u_plain :: urllib where
  "u_plain = \<lparr>urlparse_scheme = (\<lambda>arg. takeWhile (\<lambda>c. c \<noteq> CHR '':'') arg), quote = (\<lambda>arg. arg)\<rparr>"

definition entry_both :: entry_keys where
  "entry_both = \<lparr>entry_argv = [''viewer'', ''%f'', ''%F''], entry_icon = [], entry_name = ''Viewer'',
     entry_file_name = ''/usr/share/applications/viewer.desktop''\<rparr>"

section \<open>simple_systemd_escape\<close>

definition BS :: char where "BS = CHR 0x5C"

definition hexdigit :: "nat \<Rightarrow> char" where
  "hexdigit n = ''0123456789abcdef'' ! (n mod 16)"

text \<open>\<^verbatim>\<open>"\\x%02x" % b\<close> for a byte \<open>b\<close>.\<close>

definition cesc_byte :: "nat \<Rightarrow> string" where
  "cesc_byte b = [BS, CHR ''x'', hexdigit (b div 16), hexdigit b]"

text \<open>The bytes of a character in UTF-8 (code points below 256: one byte or two).\<close>

definition utf8 :: "char \<Rightarrow> nat list" where
  "utf8 c = (let n = of_char c in if n < 128 then [n] else [192 + n div 64, 128 + n mod 64])"

definition char2cesc :: "string \<Rightarrow> string" where
  "char2cesc string = concat (map cesc_byte (concat (map utf8 string)))"

text \<open>
  \<^verbatim>\<open>ucp in [46, 95] or 48 <= ucp <= 58 or 65 <= ucp <= 90 or 97 <= ucp <= 122\<close>
\<close>

definition as_is :: "char \<Rightarrow> bool" where
  "as_is ch \<longleftrightarrow>
     (let ucp = (of_char ch :: nat)
      in ucp = 46 \<or> ucp = 95 \<or> (48 \<le> ucp \<and> ucp \<le> 58) \<or> (65 \<le> ucp \<and> ucp \<le> 90)
         \<or> (97 \<le> ucp \<and> ucp \<le> 122))"

text \<open>What the loop appends for one character, piece by piece.\<close>

definition escape_pieces :: "char \<Rightarrow> string list" where
  "escape_pieces ch =
     (if ch = CHR ''/'' then [''-'']
      else if as_is ch then [[ch]]
      else map cesc_byte (utf8 ch))"

definition simple_systemd_escape :: "string \<Rightarrow> bool \<Rightarrow> string" where
  "simple_systemd_escape string start =
     (if start \<and> startswith string ''.''
      then char2cesc ''.'' @ concat (concat (map escape_pieces (drop 1 string)))
      else concat (concat (map escape_pieces string)))"

section \<open>app: the name of the unit\<close>

text \<open>\<open>random_hex(length)\<close>; \<open>rng i\<close> is the \<open>i\<close>-th choice of \<open>random.choice\<close>.\<close>

definition random_hex :: "(nat \<Rightarrow> nat) \<Rightarrow> nat \<Rightarrow> string" where
  "random_hex rng n = map (\<lambda>i. hexdigit (rng i)) [0..<n]"

text \<open>\<open>sane_split(string, ":")\<close>\<close>

definition sane_split :: "string \<Rightarrow> char \<Rightarrow> string list" where
  "sane_split string delimiter = (if string \<noteq> [] then split_chr delimiter string else [])"

text \<open>
  \<^verbatim>\<open>re.split(r"(\\x..)", s)\<close>: the pieces between the matches of a backslash, an \<open>x\<close> and
  two characters that are no newlines, and the matches themselves.
\<close>

fun re_split_x :: "string \<Rightarrow> string \<Rightarrow> string list" where
  "re_split_x acc (c # x # a # b # rest) =
     (if c = BS \<and> x = CHR ''x'' \<and> a \<noteq> LF \<and> b \<noteq> LF
      then acc # [c, x, a, b] # re_split_x [] rest
      else re_split_x (acc @ [c]) (x # a # b # rest))"
| "re_split_x acc (c # cs) = re_split_x (acc @ [c]) cs"
| "re_split_x acc [] = [acc]"

text \<open>\<open>xs[0:n]\<close> for an \<open>n\<close> that may be negative.\<close>

definition slice_to :: "'a list \<Rightarrow> int \<Rightarrow> 'a list" where
  "slice_to xs n = (if 0 \<le> n then take (nat n) xs else take (nat (int (length xs) + n)) xs)"

text \<open>
  \<^verbatim>\<open>for fragment in fragments:\<close>
  \<^verbatim>\<open>    if len(fragment) + l_check < limit:\<close>
  \<^verbatim>\<open>        substring = substring + fragment; l_check += len(fragment)\<close>
  \<^verbatim>\<open>    else:\<close>
  \<^verbatim>\<open>        if fragment.startswith(r"\x"): break\<close>
  \<^verbatim>\<open>        substring = substring + fragment[0 : limit - l_check]; break\<close>
\<close>

fun cut_loop :: "int \<Rightarrow> string list \<Rightarrow> string \<Rightarrow> int \<Rightarrow> string" where
  "cut_loop limit [] substring l_check = substring"
| "cut_loop limit (fragment # fragments) substring l_check =
     (if int (length fragment) + l_check < limit
      then cut_loop limit fragments (substring @ fragment) (l_check + int (length fragment))
      else if startswith fragment [BS, CHR ''x''] then substring
      else substring @ slice_to fragment (limit - l_check))"

definition l_static :: "string \<Rightarrow> int" where
  "l_static app_unit_type = int (length ''app---DEADBEEF.'') + int (length app_unit_type)"

definition cut_desktop :: "string \<Rightarrow> string \<Rightarrow> string" where
  "cut_desktop app_unit_type desktop_unit_substring =
     (if l_static app_unit_type + int (length desktop_unit_substring) > 127
      then cut_loop 127 (re_split_x [] desktop_unit_substring) [] (l_static app_unit_type)
      else desktop_unit_substring)"

definition cut_cmd :: "string \<Rightarrow> string \<Rightarrow> string \<Rightarrow> string" where
  "cut_cmd app_unit_type desktop_unit_substring cmd_unit_substring =
     (if l_static app_unit_type + int (length desktop_unit_substring)
           + int (length cmd_unit_substring) > 255
      then cut_loop 255 (re_split_x [] cmd_unit_substring) []
             (l_static app_unit_type + int (length desktop_unit_substring))
      else cmd_unit_substring)"

text \<open>
  The part of \<open>app\<close> that settles \<open>unit_name\<close>, from \<open>os.getenv("XDG_CURRENT_DESKTOP")\<close>
  (\<open>None\<close> when unset), \<open>app_name\<close>, \<open>cmdline\<close>, \<open>app_unit_type\<close> and the \<open>unit_name\<close> given.
\<close>

definition app_unit_name ::
  "(nat \<Rightarrow> nat) \<Rightarrow> string option \<Rightarrow> string \<Rightarrow> string list \<Rightarrow> string \<Rightarrow> string \<Rightarrow> error + string" where
  "app_unit_name rng xdg_current_desktop app_name cmdline app_unit_type unit_name =
     (if unit_name = [] then
        (case sane_split (case xdg_current_desktop of None \<Rightarrow> ''uwsm'' | Some v \<Rightarrow> v) CHR '':'' of
           [] \<Rightarrow> Inl IndexError
         | desktop # _ \<Rightarrow>
            if app_name = [] \<and> cmdline = [] then Inl IndexError
            else
             (let desktop_unit_substring =
                    cut_desktop app_unit_type (simple_systemd_escape desktop False);
                  cmd_unit_substring =
                    cut_cmd app_unit_type desktop_unit_substring
                      (simple_systemd_escape
                         (if app_name \<noteq> [] then app_name else basename (hd cmdline)) False)
              in if app_unit_type = ''scope''
                 then Inr (''app-'' @ desktop_unit_substring @ ''-'' @ cmd_unit_substring @ ''-''
                           @ random_hex rng 8 @ ''.'' @ app_unit_type)
                 else if app_unit_type = ''service''
                 then Inr (''app-'' @ desktop_unit_substring @ ''-'' @ cmd_unit_substring @ ''@''
                           @ random_hex rng 8 @ ''.'' @ app_unit_type)
                 else Inl ValueError))
      else if \<not> endswith unit_name (''.'' @ app_unit_type) then Inl ValueError
      else if length unit_name > 255 then Inl ValueError
      else Inr unit_name)"

text \<open>The pieces of an escaped string, in order: single characters and whole escape sequences.\<close>

definition pieces :: "string \<Rightarrow> string list" where
  "pieces string = concat (map escape_pieces string)"

text \<open>A piece is one character that is no backslash, or an escape sequence of four.\<close>

definition is_piece :: "string \<Rightarrow> bool" where
  "is_piece t \<longleftrightarrow> (\<exists>c. t = [c] \<and> c \<noteq> BS)
     \<or> (\<exists>a b. t = [BS, CHR ''x'', a, b] \<and> a \<noteq> LF \<and> b \<noteq> LF)"

text \<open>The two strings that go into the name: the first desktop name and the command.\<close>

definition first_desktop :: "string option \<Rightarrow> string" where
  "first_desktop xdg_current_desktop =
     hd (sane_split (case xdg_current_desktop of None \<Rightarrow> ''uwsm'' | Some v \<Rightarrow> v) CHR '':'')"

definition app_command :: "string \<Rightarrow> string list \<Rightarrow> string" where
  "app_command app_name cmdline = (if app_name \<noteq> [] then app_name else basename (hd cmdline))"

section \<open>The location and the content of a unit\<close>

text \<open>
  Where \<open>update_unit\<close> and \<open>remove_unit\<close> look for a unit: the path of its file, or the
  error they raise before they touch anything.
\<close>

definition unit_location :: "unit_args \<Rightarrow> string \<Rightarrow> error + string" where
  "unit_location args unit =
     (if \<not> re_search_Z unit_ext unit then Inl ValueError
      else
       (case (if isabs unit then Inr (''/'', normpath unit)
              else if count_slash unit > 1 then Inl ValueError
              else get_unit_path args unit) of
          Inl e \<Rightarrow> Inl e
        | Inr (unit_dir, unit') \<Rightarrow> Inr (path_join unit_dir unit')))"

text \<open>The text that \<open>update_unit\<close> reads as \<open>old_data\<close> at a path.\<close>

definition read_text :: "(string \<times> string) list \<Rightarrow> string \<Rightarrow> string" where
  "read_text fs unit_path =
     (case map_of fs unit_path of Some stored \<Rightarrow> universal_newlines stored | None \<Rightarrow> [])"

fun call_data :: "unit_call \<Rightarrow> string" where
  "call_data (Update_unit unit data) = data"
| "call_data (Remove_unit unit) = []"

text \<open>
  A call has nothing left to do on the files \<open>fs\<close>: the unit to update reads as its data,
  the unit to remove is not there.
\<close>

definition settled :: "unit_args \<Rightarrow> unit_call \<Rightarrow> (string \<times> string) list \<Rightarrow> bool" where
  "settled args c fs =
     (case unit_location args (call_unit c) of
        Inl e \<Rightarrow> False
      | Inr unit_path \<Rightarrow>
          if is_update c then read_text fs unit_path = call_data c
          else unit_path \<notin> fst ` set fs)"

text \<open>The unit directory below a runtime directory, and a name that \<open>normpath\<close> leaves as it is.\<close>

definition unit_dir_of :: "string \<Rightarrow> string" where
  "unit_dir_of rt = normpath (path_join (path_join rt ''systemd'') ''user'')"

definition simple_name :: "string \<Rightarrow> bool" where
  "simple_name n \<longleftrightarrow> n \<noteq> [] \<and> CHR ''/'' \<notin> set n \<and> n \<noteq> ''.'' \<and> n \<noteq> ''..''"

text \<open>A unit in the unit directory itself or one directory below, as \<open>generate_units\<close> names them.\<close>

definition plain_unit :: "string \<Rightarrow> bool" where
  "plain_unit unit \<longleftrightarrow> re_search_Z unit_ext unit
     \<and> (simple_name unit \<or> (\<exists>d f. unit = d @ CHR ''/'' # f \<and> simple_name d \<and> simple_name f))"

section \<open>The matcher decides the language\<close>

lemma nullable_lang: "nullable r \<longleftrightarrow> [] \<in> lang r"
  by (induction r) (auto intro: rx_star_nil)

lemma rx_star_Cons_D:
  assumes "x \<in> rx_star A" and "x = c # w"
  shows "\<exists>u v. w = u @ v \<and> c # u \<in> A \<and> v \<in> rx_star A"
  using assms
proof (induction rule: rx_star.induct)
  case rx_star_nil
  then show ?case by simp
next
  case (rx_star_app u v)
  show ?case
  proof (cases u)
    case Nil
    with rx_star_app show ?thesis by simp
  next
    case (Cons a u')
    with rx_star_app.prems have "a = c" and "w = u' @ v" by simp_all
    with Cons rx_star_app.hyps show ?thesis by blast
  qed
qed

lemma rx_star_Cons:
  "c # w \<in> rx_star A \<longleftrightarrow> (\<exists>u v. w = u @ v \<and> c # u \<in> A \<and> v \<in> rx_star A)"
proof
  assume "c # w \<in> rx_star A"
  then show "\<exists>u v. w = u @ v \<and> c # u \<in> A \<and> v \<in> rx_star A"
    by (rule rx_star_Cons_D) simp
next
  assume "\<exists>u v. w = u @ v \<and> c # u \<in> A \<and> v \<in> rx_star A"
  then obtain u v where "w = u @ v" "c # u \<in> A" "v \<in> rx_star A" by blast
  then have "(c # u) @ v \<in> rx_star A" by (intro rx_star_app)
  with \<open>w = u @ v\<close> show "c # w \<in> rx_star A" by simp
qed

lemma lang_deriv: "w \<in> lang (deriv c r) \<longleftrightarrow> c # w \<in> lang r"
proof (induction r arbitrary: w)
  case (Cat r s)
  show ?case
  proof (cases "nullable r")
    case True
    then have "[] \<in> lang r" by (simp add: nullable_lang)
    with True Cat show ?thesis
      by (auto simp: Cons_eq_append_conv)
  next
    case False
    then have "[] \<notin> lang r" by (simp add: nullable_lang)
    with False Cat show ?thesis
      by (auto simp: Cons_eq_append_conv)
  qed
next
  case (Star r)
  then show ?case by (auto simp: rx_star_Cons)
qed auto

lemma fullmatch_lang: "fullmatch r s \<longleftrightarrow> s \<in> lang r"
  unfolding fullmatch_def
  by (induction s arbitrary: r) (simp_all add: nullable_lang lang_deriv)

lemma rx_star_Cls: "cs \<in> rx_star {[c] | c. P c} \<longleftrightarrow> (\<forall>c\<in>set cs. P c)"
proof
  assume "cs \<in> rx_star {[c] | c. P c}"
  then show "\<forall>c\<in>set cs. P c"
    by (induction rule: rx_star.induct) auto
next
  assume "\<forall>c\<in>set cs. P c"
  then show "cs \<in> rx_star {[c] | c. P c}"
  proof (induction cs)
    case Nil
    show ?case by (rule rx_star_nil)
  next
    case (Cons c cs)
    then have "[c] \<in> {[c] | c. P c}" and "cs \<in> rx_star {[c] | c. P c}" by simp_all
    then have "[c] @ cs \<in> rx_star {[c] | c. P c}" by (rule rx_star_app)
    then show ?case by simp
  qed
qed

lemma lang_Cls_Cat: "s \<in> lang (Cat (Cls P) r) \<longleftrightarrow> (\<exists>c w. s = c # w \<and> P c \<and> w \<in> lang r)"
proof
  assume "s \<in> lang (Cat (Cls P) r)"
  then show "\<exists>c w. s = c # w \<and> P c \<and> w \<in> lang r" by auto
next
  assume "\<exists>c w. s = c # w \<and> P c \<and> w \<in> lang r"
  then obtain c w where "s = [c] @ w" "[c] \<in> lang (Cls P)" "w \<in> lang r" by auto
  then show "s \<in> lang (Cat (Cls P) r)" unfolding lang.simps(4) by blast
qed

lemma lang_Cls_Star:
  "s \<in> lang (Cat (Cls P) (Star (Cls Q))) \<longleftrightarrow> (\<exists>c cs. s = c # cs \<and> P c \<and> (\<forall>x\<in>set cs. Q x))"
  unfolding lang_Cls_Cat by (simp add: rx_star_Cls)

lemma lang_Cls_Plus:
  "s \<in> lang (Cat (Cls P) (Plus (Cls Q))) \<longleftrightarrow>
     (\<exists>c cs. s = c # cs \<and> P c \<and> cs \<noteq> [] \<and> (\<forall>x\<in>set cs. Q x))"
proof -
  have "w \<in> lang (Plus (Cls Q)) \<longleftrightarrow> w \<noteq> [] \<and> (\<forall>x\<in>set w. Q x)" for w
    unfolding Plus_def lang_Cls_Star by (cases w) auto
  then show ?thesis unfolding lang_Cls_Cat by simp
qed

lemma sh_varname_iff:
  "re_search_A_Z sh_varname s \<longleftrightarrow>
     (\<exists>c cs. s = c # cs \<and> (\<forall>x\<in>set cs. cls_word x) \<and> (cls_alpha c \<or> c = CHR ''_'' \<and> cs \<noteq> []))"
proof -
  have a: "cls_alpha_us c \<longleftrightarrow> cls_alpha c \<or> c = CHR ''_''" for c
    by (auto simp: cls_alpha_us_def cls_alpha_def)
  have "s \<in> lang sh_varname \<longleftrightarrow> s \<in> lang (Cat (Cls cls_alpha_us) (Plus (Cls cls_word)))
      \<or> s \<in> lang (Cat (Cls cls_alpha) (Star (Cls cls_word)))"
    by (simp add: sh_varname_def)
  then show ?thesis
    unfolding re_search_A_Z_def fullmatch_lang lang_Cls_Star lang_Cls_Plus a by auto
qed

lemma posix_name_iff:
  "re_search_A_Z posix_name s \<longleftrightarrow>
     (\<exists>c cs. s = c # cs \<and> cls_alpha_us c \<and> (\<forall>x\<in>set cs. cls_word x))"
  unfolding re_search_A_Z_def fullmatch_lang posix_name_def by (rule lang_Cls_Star)

section \<open>Variable names\<close>

text \<open>
  C10. The validity predicate of \<open>filter_varnames\<close> accepts every single ASCII letter and
  every name of at least two characters of the form \<open>[a-zA-Z_][a-zA-Z0-9_]*\<close>; it rejects the
  one-character name \<open>_\<close>, which \<open>filter_varnames\<close> therefore drops from any mapping, although
  \<open>_\<close> is a name of the shell.
\<close>

theorem sh_varname_accepts_and_rejects:
  "(cls_alpha c \<longrightarrow> re_search_A_Z sh_varname [c])
   \<and> (cls_alpha_us d \<and> cs \<noteq> [] \<and> (\<forall>x\<in>set cs. cls_word x) \<longrightarrow> re_search_A_Z sh_varname (d # cs))
   \<and> \<not> re_search_A_Z sh_varname ''_''
   \<and> filter_varnames data ''_'' = None
   \<and> re_search_A_Z posix_name ''_''"
proof -
  have "\<not> cls_alpha CHR ''_''"
    by (simp add: cls_alpha_def char_in_def)
  moreover have "cls_alpha_us CHR ''_''"
    by (simp add: cls_alpha_us_def)
  moreover have "cls_alpha_us d \<longleftrightarrow> cls_alpha d \<or> d = CHR ''_''"
    by (auto simp: cls_alpha_us_def cls_alpha_def)
  ultimately show ?thesis
    by (auto simp: sh_varname_iff posix_name_iff filter_varnames_def)
qed

theorem sh_varname_accepts_and_rejects_witness:
  "re_search_A_Z sh_varname ''x''
   \<and> re_search_A_Z sh_varname ''_PATH2''
   \<and> \<not> re_search_A_Z sh_varname ''_''
   \<and> filter_varnames [''_'' \<mapsto> ''/bin/sh'', ''PATH'' \<mapsto> ''/usr/bin''] ''_'' = None
   \<and> re_search_A_Z posix_name ''_''"
  using sh_varname_accepts_and_rejects
    [of "CHR ''x''" "CHR ''_''" "''PATH2''" "[''_'' \<mapsto> ''/bin/sh'', ''PATH'' \<mapsto> ''/usr/bin'']"]
  by (simp add: cls_alpha_def cls_alpha_us_def cls_word_def char_in_def)

section \<open>The environment\<close>

lemma force_export_apply:
  "force_export env_post vars set_env var =
     (if var \<in> set vars \<and> env_post var \<noteq> None then env_post var else set_env var)"
  by (induction vars arbitrary: set_env) (auto split: option.splits)

lemma exclude_export_apply:
  "exclude_export vars set_env var = (if var \<in> set vars then None else set_env var)"
  by (induction vars arbitrary: set_env) (auto simp: domIff)

lemma exclude_export_set:
  "set vars = set vars' \<Longrightarrow> exclude_export vars set_env = exclude_export vars' set_env"
  by (rule ext) (simp add: exclude_export_apply)

lemma finite_Varnames:
  "finite always_export" "finite never_export" "finite always_unset"
  "finite always_cleanup" "finite never_cleanup"
  by (simp_all add: always_export_def never_export_def always_unset_def always_cleanup_def
      never_cleanup_def)

lemma set_env_of_apply:
  "set_env_of env_pre env_post var =
     (if var \<in> never_export \<union> always_unset then None
      else if var \<in> always_export then env_post var
      else raw_difference env_post env_pre var)"
  unfolding set_env_of_def
  by (auto simp: exclude_export_apply force_export_apply finite_Varnames raw_difference_def
      split: option.splits)

lemma isfile_map_of: "isfile d f \<longleftrightarrow> (\<exists>content. map_of d f = Some (File content))"
  by (auto simp: isfile_def split: option.splits node.splits)

lemma read_cleanup_files_eq:
  "read_cleanup_files d fs acc =
     acc \<union> (\<Union>f \<in> {f \<in> set fs. isfile d f}. cleanup_file_varnames (read_file d f))"
  by (induction fs arbitrary: acc) auto

lemma find_cleanup_files_isfile: "f \<in> set (find_cleanup_files d) \<Longrightarrow> isfile d f"
  by (simp add: find_cleanup_files_def)

lemma distinct_find_cleanup_files:
  "distinct (map fst d) \<Longrightarrow> distinct (find_cleanup_files d)"
  by (simp add: find_cleanup_files_def listdir_def)

lemma remove_cleanup_files_ok:
  "distinct fs \<Longrightarrow> \<forall>f\<in>set fs. isfile d f \<Longrightarrow>
     \<exists>d'. remove_cleanup_files fs d = Inr d'
        \<and> map_of d' = (\<lambda>x. if x \<in> set fs then None else map_of d x)"
proof (induction fs arbitrary: d)
  case Nil
  then show ?case by simp
next
  case (Cons f fs)
  from Cons.prems obtain content where f: "map_of d f = Some (File content)"
    by (auto simp: isfile_map_of)
  then have rm: "remove_file d f = Inr (AList.delete f d)"
    by (simp add: remove_file_def)
  have "\<forall>g\<in>set fs. isfile (AList.delete f d) g"
    using Cons.prems by (auto simp: isfile_map_of delete_conv')
  with Cons.IH [of "AList.delete f d"] Cons.prems(1)
  obtain d' where "remove_cleanup_files fs (AList.delete f d) = Inr d'"
    and "map_of d' = (\<lambda>x. if x \<in> set fs then None else map_of (AList.delete f d) x)"
    by auto
  with rm show ?case by (auto simp: delete_conv' fun_eq_iff)
qed

lemma read_found: "read_cleanup_files d (find_cleanup_files d) {} = manifest_names d"
  unfolding read_cleanup_files_eq manifest_names_def
  using find_cleanup_files_isfile by auto

lemma sd_env_unset [simp]:
  "sd_env (unset_systemd_vars V s) = (\<lambda>var. if var \<in> V then None else sd_env s var)"
  by (auto simp: unset_systemd_vars_def blank_dbus_vars_def Let_def)

lemma rt_dir_unset [simp]: "rt_dir (unset_systemd_vars V s) = rt_dir s"
  by (auto simp: unset_systemd_vars_def blank_dbus_vars_def Let_def)

lemma cleanup_env_found:
  assumes found: "find_cleanup_files (rt_dir s) \<noteq> []" and dist: "distinct (map fst (rt_dir s))"
  shows "\<exists>s'. cleanup_env s = Inr (True, s')
     \<and> sd_env s' = (\<lambda>var. if var \<in> cleanup_varnames_at_stop (manifest_names (rt_dir s)) (dom (sd_env s))
                       then None else sd_env s var)
     \<and> map_of (rt_dir s') =
         (\<lambda>f. if f \<in> set (find_cleanup_files (rt_dir s)) then None else map_of (rt_dir s) f)"
proof -
  let ?fs = "find_cleanup_files (rt_dir s)"
  let ?V = "cleanup_varnames_at_stop (manifest_names (rt_dir s)) (dom (sd_env s))"
  let ?s1 = "if ?V \<noteq> {} then unset_systemd_vars ?V s else s"
  have rt: "rt_dir ?s1 = rt_dir s" by simp
  have "distinct ?fs" using dist by (rule distinct_find_cleanup_files)
  moreover have "\<forall>f\<in>set ?fs. isfile (rt_dir s) f" by (simp add: find_cleanup_files_isfile)
  ultimately obtain d' where d': "remove_cleanup_files ?fs (rt_dir s) = Inr d'"
    and m: "map_of d' = (\<lambda>x. if x \<in> set ?fs then None else map_of (rt_dir s) x)"
    using remove_cleanup_files_ok by blast
  have c: "cleanup_env s = Inr (True, ?s1\<lparr>rt_dir := d'\<rparr>)"
    using found d' rt
    by (simp add: cleanup_env_def Let_def read_found get_systemd_vars_def del: rt_dir_unset)
  have "sd_env (?s1\<lparr>rt_dir := d'\<rparr>) = (\<lambda>var. if var \<in> ?V then None else sd_env s var)"
    by (auto simp: fun_eq_iff)
  with c m show ?thesis by simp
qed

lemma isspace_LF: "isspace LF"
  by (simp add: isspace_def LF_def char_in_def)

lemma universal_newlines_id: "CR \<notin> set s \<Longrightarrow> universal_newlines s = s"
  by (induction s rule: universal_newlines.induct) auto

lemma universal_newlines_no_CR: "CR \<notin> set (universal_newlines s)"
  by (induction s rule: universal_newlines.induct) (auto simp: CR_def LF_def)

lemma lines_from_append: "LF \<notin> set x \<Longrightarrow> lines_from cur (x @ r) = lines_from (cur @ x) r"
  by (induction x arbitrary: cur) auto

lemma lstrip_clean: "clean_name n \<Longrightarrow> lstrip (n @ r) = n @ r"
  by (cases n) (auto simp: clean_name_def lstrip_def)

lemma strip_clean: "clean_name n \<Longrightarrow> strip n = n"
proof -
  assume c: "clean_name n"
  then have "lstrip n = n" using lstrip_clean [of n "[]"] by simp
  moreover have "rstrip n = n"
    using c by (cases n rule: rev_cases) (auto simp: clean_name_def rstrip_def)
  ultimately show ?thesis by (simp add: strip_def)
qed

lemma strip_clean_LF: "clean_name n \<Longrightarrow> strip (n @ [LF]) = n"
proof -
  assume c: "clean_name n"
  then have "lstrip (n @ [LF]) = n @ [LF]" by (rule lstrip_clean)
  moreover have "rstrip (n @ [LF]) = n"
    using c by (cases n rule: rev_cases) (auto simp: clean_name_def rstrip_def isspace_LF)
  ultimately show ?thesis by (simp add: strip_def)
qed

lemma lines_join_clean:
  "\<forall>x\<in>set xs. clean_name x \<Longrightarrow>
     set (filter (\<lambda>l. l \<noteq> []) (map strip (lines_from [] (join [LF] xs)))) = set xs"
proof (induction "[LF]" xs rule: join.induct)
  case 1
  then show ?case by simp
next
  case (2 x)
  then have "LF \<notin> set x" "x \<noteq> []" "strip x = x"
    by (simp_all add: clean_name_def strip_clean)
  then show ?case using lines_from_append [of x "[]" "[]"] by simp
next
  case (3 x y ys)
  then have x: "LF \<notin> set x" "x \<noteq> []" "strip (x @ [LF]) = x"
    by (simp_all add: clean_name_def strip_clean_LF)
  have "lines_from [] (join [LF] (x # y # ys)) = (x @ [LF]) # lines_from [] (join [LF] (y # ys))"
    using lines_from_append [of x "[]" "LF # join [LF] (y # ys)"] x(1) by simp
  with 3 x show ?case by auto
qed

lemma cleanup_file_roundtrip:
  assumes "finite S" and "\<forall>x\<in>S. clean_name x"
  shows "cleanup_file_varnames (join [LF] (sorted_list_of_set S)) = S"
proof -
  let ?xs = "sorted_list_of_set S"
  have xs: "set ?xs = S" using assms(1) by simp
  with assms(2) have c: "\<forall>x\<in>set ?xs. clean_name x" by simp
  have "CR \<notin> set (join [LF] xs)" if "\<forall>x\<in>set xs. clean_name x" for xs
    using that by (induction "[LF]" xs rule: join.induct) (auto simp: clean_name_def CR_def LF_def)
  with c have "universal_newlines (join [LF] ?xs) = join [LF] ?xs"
    by (simp add: universal_newlines_id)
  with lines_join_clean [OF c] xs show ?thesis
    by (simp add: cleanup_file_varnames_def readlines_def)
qed

lemma line_shape:
  "l \<in> set (lines_from cur s) \<Longrightarrow> LF \<notin> set cur \<Longrightarrow> \<exists>b. LF \<notin> set b \<and> (l = b \<or> l = b @ [LF])"
proof (induction s arbitrary: cur)
  case Nil
  then show ?case by (auto split: if_splits)
next
  case (Cons c s)
  show ?case
  proof (cases "c = LF")
    case True
    with Cons.prems have "l = cur @ [LF] \<or> l \<in> set (lines_from [] s)" by simp
    then show ?thesis using Cons.IH [of "[]"] Cons.prems(2) by auto
  next
    case False
    with Cons.prems have "l \<in> set (lines_from (cur @ [c]) s)" by simp
    moreover have "LF \<notin> set (cur @ [c])" using False Cons.prems(2) by simp
    ultimately show ?thesis by (rule Cons.IH)
  qed
qed

lemma strip_drop_LF: "strip (b @ [LF]) = strip b"
proof (cases "\<forall>x\<in>set b. isspace x")
  case True
  then have "lstrip (b @ [LF]) = []" "lstrip b = []"
    by (simp_all add: lstrip_def dropWhile_append isspace_LF)
  then show ?thesis by (simp add: strip_def)
next
  case False
  then have "lstrip (b @ [LF]) = lstrip b @ [LF]"
    by (auto simp: lstrip_def dropWhile_append)
  then show ?thesis by (simp add: strip_def rstrip_def isspace_LF)
qed

lemma set_strip: "set (strip l) \<subseteq> set l"
proof -
  have "set (rstrip m) \<subseteq> set m" for m
    unfolding rstrip_def using set_dropWhileD [of _ isspace "rev m"] by auto
  moreover have "set (lstrip l) \<subseteq> set l"
    unfolding lstrip_def using set_dropWhileD [of _ isspace l] by auto
  ultimately show ?thesis unfolding strip_def by blast
qed

lemma last_dropWhile_nonempty: "dropWhile P xs \<noteq> [] \<Longrightarrow> last (dropWhile P xs) = last xs"
proof -
  assume n: "dropWhile P xs \<noteq> []"
  have "xs = takeWhile P xs @ dropWhile P xs" by simp
  then have "last xs = last (takeWhile P xs @ dropWhile P xs)" by simp
  also have "\<dots> = last (dropWhile P xs)" using n by (rule last_appendR)
  finally show ?thesis by simp
qed

lemma strip_ends:
  assumes "strip l \<noteq> []"
  shows "\<not> isspace (hd (strip l)) \<and> \<not> isspace (last (strip l))"
proof -
  let ?m = "dropWhile isspace l"
  let ?D = "dropWhile isspace (rev ?m)"
  from assms have D: "?D \<noteq> []" by (simp add: strip_def rstrip_def lstrip_def)
  then have m: "?m \<noteq> []" by (cases ?m) simp_all
  have "last (strip l) = hd ?D"
    using D by (simp add: strip_def rstrip_def lstrip_def last_rev)
  moreover have "\<not> isspace (hd ?D)" using D by (rule hd_dropWhile)
  moreover have "hd (strip l) = last ?D"
    using D by (simp add: strip_def rstrip_def lstrip_def hd_rev)
  moreover have "last ?D = last (rev ?m)" using D by (rule last_dropWhile_nonempty)
  moreover have "last (rev ?m) = hd ?m" using m by (simp add: last_rev)
  moreover have "\<not> isspace (hd ?m)" using m by (rule hd_dropWhile)
  ultimately show ?thesis by simp
qed

lemma lines_no_CR:
  "l \<in> set (lines_from cur s) \<Longrightarrow> CR \<notin> set s \<Longrightarrow> CR \<notin> set cur \<Longrightarrow> CR \<notin> set l"
proof (induction s arbitrary: cur)
  case Nil
  then show ?case by (auto split: if_splits)
next
  case (Cons c s)
  show ?case
  proof (cases "c = LF")
    case True
    with Cons.prems have "l = cur @ [LF] \<or> l \<in> set (lines_from [] s)" by simp
    then show ?thesis using Cons.IH [of "[]"] Cons.prems by (auto simp: CR_def LF_def)
  next
    case False
    with Cons.prems have "l \<in> set (lines_from (cur @ [c]) s)" by simp
    then show ?thesis using Cons.IH [of "cur @ [c]"] Cons.prems by simp
  qed
qed

lemma cleanup_file_varnames_clean:
  assumes "n \<in> cleanup_file_varnames content"
  shows "clean_name n"
proof -
  from assms obtain l where l: "l \<in> set (lines_from [] (universal_newlines content))"
    and n: "n = strip l" "n \<noteq> []"
    by (auto simp: cleanup_file_varnames_def readlines_def)
  from line_shape [OF l] obtain b where b: "LF \<notin> set b" "l = b \<or> l = b @ [LF]" by auto
  then have nb: "n = strip b" using n(1) by (auto simp: strip_drop_LF)
  then have "LF \<notin> set n" using set_strip [of b] b(1) by auto
  moreover have "CR \<notin> set l"
    using lines_no_CR [OF l universal_newlines_no_CR] by simp
  then have "CR \<notin> set n" using n(1) set_strip [of l] by auto
  ultimately show ?thesis using n strip_ends [of l] by (simp add: clean_name_def)
qed

lemma cls_word_not_space: "cls_word x \<Longrightarrow> \<not> isspace x \<and> x \<noteq> LF \<and> x \<noteq> CR"
  by (auto simp: cls_word_def isspace_def char_in_def LF_def CR_def less_eq_char_def)

lemma sh_varname_clean: "re_search_A_Z sh_varname n \<Longrightarrow> clean_name n"
proof -
  assume "re_search_A_Z sh_varname n"
  then obtain c cs where n: "n = c # cs" and cs: "\<forall>x\<in>set cs. cls_word x"
    and c: "cls_alpha c \<or> c = CHR ''_'' \<and> cs \<noteq> []"
    unfolding sh_varname_iff by blast
  from c have "cls_word c" by (auto simp: cls_word_def cls_alpha_def)
  with cs have "\<forall>x\<in>set n. cls_word x" using n by simp
  then have "\<forall>x\<in>set n. \<not> isspace x \<and> x \<noteq> LF \<and> x \<noteq> CR"
    using cls_word_not_space by blast
  moreover have "n \<noteq> []" "hd n \<in> set n" "last n \<in> set n" using n by simp_all
  ultimately show ?thesis unfolding clean_name_def by blast
qed

lemma always_cleanup_clean: "x \<in> always_cleanup \<Longrightarrow> clean_name x"
  by (auto simp: always_cleanup_def clean_name_def isspace_def char_in_def LF_def CR_def)

lemma finite_dom_parse_env: "finite (dom env_post) \<Longrightarrow> finite (dom (parse_env es env_post))"
  by (induction es arbitrary: env_post) simp_all

lemma dom_filter_varnames: "dom (filter_varnames m) = {var \<in> dom m. re_search_A_Z sh_varname var}"
  by (auto simp: filter_varnames_def domIff split: if_splits)

lemma dom_set_env_of: "dom (set_env_of env_pre env_post) \<subseteq> dom env_post"
  by (auto simp: set_env_of_apply raw_difference_def domIff split: if_splits option.splits)

lemma env_post_of_props:
  "finite (dom (env_post_of stdout mark pos))"
  "var \<in> dom (env_post_of stdout mark pos) \<Longrightarrow> clean_name var"
  by (auto simp: env_post_of_def dom_filter_varnames finite_dom_parse_env sh_varname_clean)

lemma prepare_env_sets_Inr:
  assumes "prepare_env_sets inp s = Inr (set_env, unset_varnames, cleanup_varnames)"
  shows "finite cleanup_varnames" and "\<forall>x\<in>cleanup_varnames. clean_name x"
    and "cleanup_varnames = cleanup_varnames_of set_env"
proof -
  from assms obtain vt sid pos where
    se: "set_env = set_env_of (env_pre_of s vt sid)
           (env_post_of (sprc_stdout inp) (random_mark inp) pos)"
    and cl: "cleanup_varnames = cleanup_varnames_of set_env"
    by (auto simp: prepare_env_sets_def Let_def split: option.splits if_splits)
  let ?post = "env_post_of (sprc_stdout inp) (random_mark inp) pos"
  have sub: "dom set_env \<subseteq> dom ?post" unfolding se by (rule dom_set_env_of)
  then have "finite (dom set_env)" using env_post_of_props(1) finite_subset by blast
  then show "finite cleanup_varnames"
    unfolding cl cleanup_varnames_of_def using finite_Varnames by simp
  show "\<forall>x\<in>cleanup_varnames. clean_name x"
    unfolding cl cleanup_varnames_of_def
    using sub env_post_of_props(2) [of _ "sprc_stdout inp" "random_mark inp" pos]
      always_cleanup_clean by blast
  show "cleanup_varnames = cleanup_varnames_of set_env" by (rule cl)
qed

lemma prepare_env_sets_ok:
  "shell_ok inp \<Longrightarrow> \<exists>set_env unset_varnames cleanup_varnames.
     prepare_env_sets inp s = Inr (set_env, unset_varnames, cleanup_varnames)"
  by (auto simp: shell_ok_def prepare_env_sets_def Let_def)

lemma rt_dir_set [simp]: "rt_dir (set_systemd_vars V s) = rt_dir s"
  by (auto simp: set_systemd_vars_def set_dbus_vars_def Let_def)

lemma prepare_env_manifest:
  assumes ok: "shell_ok inp" and nd: "map_of (rt_dir s) (cleanup_file_name wid) \<noteq> Some Other"
  shows "\<exists>s' set_env unset_varnames cleanup_varnames.
     prepare_env wid inp s = Inr s'
     \<and> prepare_env_sets inp s = Inr (set_env, unset_varnames, cleanup_varnames)
     \<and> isfile (rt_dir s') (cleanup_file_name wid)
     \<and> cleanup_file_varnames (read_file (rt_dir s') (cleanup_file_name wid))
         = current_names (rt_dir s) (cleanup_file_name wid) \<union> cleanup_varnames"
proof -
  let ?f = "cleanup_file_name wid"
  from prepare_env_sets_ok [OF ok] obtain set_env unset_varnames cleanup_varnames
    where sets: "prepare_env_sets inp s = Inr (set_env, unset_varnames, cleanup_varnames)"
    by blast
  let ?S = "current_names (rt_dir s) ?f \<union> cleanup_varnames"
  let ?content = "join [LF] (sorted_list_of_set ?S)"
  let ?d = "AList.update ?f (File ?content) (rt_dir s)"
  have w: "write_file (rt_dir s) ?f ?content = Inr ?d"
    using nd by (auto simp: write_file_def split: option.splits node.splits)
  let ?s1 = "set_systemd_vars set_env (s\<lparr>rt_dir := ?d\<rparr>)"
  let ?s' = "if unset_varnames \<noteq> {} then unset_systemd_vars unset_varnames ?s1 else ?s1"
  have p: "prepare_env wid inp s = Inr ?s'"
    using sets w by (simp add: prepare_env_def Let_def current_names_def)
  have rt: "rt_dir ?s' = ?d" by simp
  have "finite (current_names (rt_dir s) ?f)"
    by (simp add: current_names_def cleanup_file_varnames_def)
  moreover have "\<forall>x\<in>current_names (rt_dir s) ?f. clean_name x"
    by (auto simp: current_names_def cleanup_file_varnames_clean split: if_splits)
  ultimately have "finite ?S" and "\<forall>x\<in>?S. clean_name x"
    using prepare_env_sets_Inr(1,2) [OF sets] by auto
  then have r: "cleanup_file_varnames ?content = ?S" by (rule cleanup_file_roundtrip)
  have "isfile ?d ?f" and "read_file ?d ?f = ?content"
    by (simp_all add: isfile_def read_file_def update_conv')
  with p r rt sets show ?thesis by (metis (no_types, lifting))
qed

lemma shell_ok_scenario: "shell_ok inp_scenario"
  by (simp add: shell_ok_def inp_scenario_def find_def startswith_def)

lemma find_scenario: "find (sprc_stdout inp_scenario) (random_mark inp_scenario) = Some 0"
  by (simp add: inp_scenario_def find_def startswith_def)

subsection \<open>The export set\<close>

text \<open>
  C3. For every state of the manager and every output of the shell with which \<open>prepare_env\<close>
  gets as far as the difference, the variables it exports are, as key/value pairs, those
  of the filtered \<open>env_post\<close> that are not in \<open>env_pre\<close>, together with the always-export
  names that \<open>env_post\<close> holds (with their values there), without every name of the
  never-export and always-unset sets.
\<close>

theorem prepare_env_exports_spec_toSet:
  assumes "v_term inp = Some vt" and "session_id inp = Some sid"
    and "find (sprc_stdout inp) (random_mark inp) = Some mark_position"
    and "sprc_returncode inp = 0"
  shows "\<exists>set_env unset_varnames cleanup_varnames.
     prepare_env_sets inp s = Inr (set_env, unset_varnames, cleanup_varnames)
     \<and> Map.graph set_env =
         spec_toSet (env_pre_of s vt sid)
           (env_post_of (sprc_stdout inp) (random_mark inp) mark_position)"
proof -
  let ?pre = "env_pre_of s vt sid"
  let ?post = "env_post_of (sprc_stdout inp) (random_mark inp) mark_position"
  have "\<exists>unset_varnames cleanup_varnames.
      prepare_env_sets inp s = Inr (set_env_of ?pre ?post, unset_varnames, cleanup_varnames)"
    using assms by (simp add: prepare_env_sets_def Let_def)
  moreover have "Map.graph (set_env_of ?pre ?post) = spec_toSet ?pre ?post"
    unfolding spec_toSet_def Map.graph_def
    by (auto simp: set_env_of_apply raw_difference_def split: option.splits if_splits)
  ultimately show ?thesis by blast
qed

theorem prepare_env_exports_spec_toSet_witness:
  "\<exists>set_env unset_varnames cleanup_varnames.
     prepare_env_sets inp_scenario s_no_manifest = Inr (set_env, unset_varnames, cleanup_varnames)
     \<and> Map.graph set_env =
         spec_toSet (env_pre_of s_no_manifest 1 2)
           (env_post_of (sprc_stdout inp_scenario) (random_mark inp_scenario) 0)"
  using prepare_env_exports_spec_toSet [of inp_scenario 1 2 0 s_no_manifest] find_scenario
  by (simp add: inp_scenario_def)

text \<open>
  The scenario of C2: \<open>WAYLAND_DISPLAY\<close> is new in the post-prepare snapshot, but it is one
  of the always-unset names, which \<open>prepare_env\<close> removes from the export set: the export set
  is not \<open>WAYLAND_DISPLAY\<close> with the always-export name \<open>PATH\<close>.
\<close>

theorem scenario_set_env_counterexample:
  "set_env_of [''PATH'' \<mapsto> ''/usr/bin'']
     [''PATH'' \<mapsto> ''/usr/bin'', ''WAYLAND_DISPLAY'' \<mapsto> ''wayland-1''] ''WAYLAND_DISPLAY'' = None
   \<and> set_env_of [''PATH'' \<mapsto> ''/usr/bin'']
     [''PATH'' \<mapsto> ''/usr/bin'', ''WAYLAND_DISPLAY'' \<mapsto> ''wayland-1'']
     \<noteq> [''WAYLAND_DISPLAY'' \<mapsto> ''wayland-1'', ''PATH'' \<mapsto> ''/usr/bin'']"
proof -
  have "set_env_of [''PATH'' \<mapsto> ''/usr/bin'']
     [''PATH'' \<mapsto> ''/usr/bin'', ''WAYLAND_DISPLAY'' \<mapsto> ''wayland-1''] ''WAYLAND_DISPLAY'' = None"
    by (simp add: set_env_of_apply always_unset_def)
  then show ?thesis by (auto simp: fun_eq_iff)
qed

text \<open>
  C2 (amended). For the baseline \<open>{PATH: /usr/bin}\<close> and the post-prepare snapshot
  \<open>{PATH: /usr/bin, WAYLAND_DISPLAY: wayland-1}\<close> the export set is \<open>{PATH: /usr/bin}\<close>: the
  always-export name of the snapshot, and not \<open>WAYLAND_DISPLAY\<close>, an always-unset name. The
  set to unset, taken against the names the manager holds (those of the baseline), is
  empty.
\<close>

theorem scenario_set_env:
  "set_env_of [''PATH'' \<mapsto> ''/usr/bin'']
     [''PATH'' \<mapsto> ''/usr/bin'', ''WAYLAND_DISPLAY'' \<mapsto> ''wayland-1'']
     = [''PATH'' \<mapsto> ''/usr/bin'']
   \<and> unset_varnames_of [''PATH'' \<mapsto> ''/usr/bin'']
       [''PATH'' \<mapsto> ''/usr/bin'', ''WAYLAND_DISPLAY'' \<mapsto> ''wayland-1'']
       (dom [''PATH'' \<mapsto> ''/usr/bin'']) = {}"
proof -
  have "set_env_of [''PATH'' \<mapsto> ''/usr/bin'']
     [''PATH'' \<mapsto> ''/usr/bin'', ''WAYLAND_DISPLAY'' \<mapsto> ''wayland-1'']
     = [''PATH'' \<mapsto> ''/usr/bin'']"
    by (rule ext)
      (simp add: set_env_of_apply raw_difference_def always_export_def never_export_def
        always_unset_def)
  moreover have "unset_varnames_of [''PATH'' \<mapsto> ''/usr/bin'']
       [''PATH'' \<mapsto> ''/usr/bin'', ''WAYLAND_DISPLAY'' \<mapsto> ''wayland-1'']
       (dom [''PATH'' \<mapsto> ''/usr/bin'']) = {}"
    by (simp add: unset_varnames_of_def always_unset_def)
  ultimately show ?thesis by simp
qed

theorem scenario_set_env_witness:
  "set_env_of [''PATH'' \<mapsto> ''/usr/bin'']
     [''PATH'' \<mapsto> ''/usr/bin'', ''WAYLAND_DISPLAY'' \<mapsto> ''wayland-1''] ''PATH'' = Some ''/usr/bin''"
  using scenario_set_env by simp

subsection \<open>Cleanup\<close>




subsection \<open>The cleanup file grows\<close>

text \<open>
  C4. Two calls of \<open>prepare_env\<close> for the same \<open>wm_id\<close>, with no cleanup in between and no
  cleanup file before the first, both succeed (given a foreground VT, a session, the mark
  in the shell's output and return code 0), and leave a cleanup file whose names are the
  union of the cleanup sets of the two calls.
\<close>

theorem prepare_env_twice_accumulates:
  assumes "shell_ok inp1" and "shell_ok inp2"
    and "map_of (rt_dir s) (cleanup_file_name wid) = None"
  shows "\<exists>s1 s2 set_env1 unset1 cleanup1 set_env2 unset2 cleanup2.
     prepare_env wid inp1 s = Inr s1 \<and> prepare_env wid inp2 s1 = Inr s2
     \<and> prepare_env_sets inp1 s = Inr (set_env1, unset1, cleanup1)
     \<and> prepare_env_sets inp2 s1 = Inr (set_env2, unset2, cleanup2)
     \<and> cleanup_file_varnames (read_file (rt_dir s2) (cleanup_file_name wid))
         = cleanup1 \<union> cleanup2"
proof -
  let ?f = "cleanup_file_name wid"
  have nd: "map_of (rt_dir s) ?f \<noteq> Some Other" using assms(3) by simp
  from prepare_env_manifest [OF assms(1) nd]
  obtain s1 set_env1 unset1 cleanup1 where
    1: "prepare_env wid inp1 s = Inr s1"
       "prepare_env_sets inp1 s = Inr (set_env1, unset1, cleanup1)"
       "isfile (rt_dir s1) ?f"
       "cleanup_file_varnames (read_file (rt_dir s1) ?f) = current_names (rt_dir s) ?f \<union> cleanup1"
    by blast
  have c0: "current_names (rt_dir s) ?f = {}"
    using assms(3) by (simp add: current_names_def isfile_def)
  have nd1: "map_of (rt_dir s1) ?f \<noteq> Some Other"
    using 1(3) by (auto simp: isfile_def)
  from prepare_env_manifest [OF assms(2) nd1]
  obtain s2 set_env2 unset2 cleanup2 where
    2: "prepare_env wid inp2 s1 = Inr s2"
       "prepare_env_sets inp2 s1 = Inr (set_env2, unset2, cleanup2)"
       "cleanup_file_varnames (read_file (rt_dir s2) ?f) = current_names (rt_dir s1) ?f \<union> cleanup2"
    by blast
  have "current_names (rt_dir s1) ?f = cleanup1"
    using 1(3,4) c0 by (simp add: current_names_def)
  with 1 2 show ?thesis by auto
qed

theorem prepare_env_twice_accumulates_witness:
  "\<exists>s1 s2 set_env1 unset1 cleanup1 set_env2 unset2 cleanup2.
     prepare_env ''sway'' inp_scenario s_no_manifest = Inr s1
     \<and> prepare_env ''sway'' inp_scenario s1 = Inr s2
     \<and> prepare_env_sets inp_scenario s_no_manifest = Inr (set_env1, unset1, cleanup1)
     \<and> prepare_env_sets inp_scenario s1 = Inr (set_env2, unset2, cleanup2)
     \<and> cleanup_file_varnames (read_file (rt_dir s2) (cleanup_file_name ''sway''))
         = cleanup1 \<union> cleanup2"
proof -
  have "map_of (rt_dir s_no_manifest) (cleanup_file_name ''sway'') = None"
    by (simp add: s_no_manifest_def)
  with shell_ok_scenario shell_ok_scenario show ?thesis
    by (rule prepare_env_twice_accumulates)
qed

section \<open>The unit store\<close>

lemma update_unit_rejects:
  "\<not> re_search_Z unit_ext unit \<Longrightarrow> update_unit args unit data s = (Inl ValueError, s)"
  by (simp add: update_unit_def)

lemma remove_unit_rejects:
  "\<not> re_search_Z unit_ext unit \<Longrightarrow> remove_unit args unit s = (Inl ValueError, s)"
  by (simp add: remove_unit_def)

text \<open>
  C7. \<open>update_unit\<close> and \<open>remove_unit\<close> raise \<open>ValueError\<close> first of all when
  \<open>Val.unit_ext\<close> does not match (\<open>update_unit_rejects\<close>, \<open>remove_unit_rejects\<close>), but the
  pattern has an unescaped dot before \<open>conf\<close>: the path \<open>x.d/fooXconf\<close>, whose extension is none
  of the list, is matched; \<open>update_unit\<close> writes the file and \<open>remove_unit\<close> raises nothing.
\<close>

theorem unit_ext_accepts_fooXconf:
  "re_search_Z unit_ext ''x.d/fooXconf''
   \<and> fst (update_unit args_run ''x.d/fooXconf'' ''[Unit]'' store_empty) = Inr True
   \<and> files (snd (update_unit args_run ''x.d/fooXconf'' ''[Unit]'' store_empty))
       = [(''/run/user/1000/systemd/user/x.d/fooXconf'', ''[Unit]'')]
   \<and> fst (remove_unit args_run ''x.d/fooXconf'' store_empty) = Inr False"
  by code_simp

theorem unit_ext_accepts_fooXconf_witness:
  "fst (update_unit args_run ''x.d/fooXconf'' ''[Unit]'' store_empty) \<noteq> Inl ValueError"
  using unit_ext_accepts_fooXconf by simp

section \<open>The units of a session\<close>

lemma run_calls_append:
  "run_calls args (a @ b) rs s =
     (case run_calls args a rs s of
        (Inl e, s') \<Rightarrow> (Inl e, s')
      | (Inr rs', s') \<Rightarrow> run_calls args b rs' s')"
  by (induction a arbitrary: rs s) (auto split: prod.splits sum.splits)

lemma generate_units_run_calls:
  "generate_units_calls p args g = Inr calls \<Longrightarrow>
     generate_units p args g s = run_calls args calls [] (s\<lparr>units_changed := False\<rparr>)"
  by (auto simp: generate_units_calls_def generate_units_def run_calls_append Let_def
      split: sum.splits prod.splits)

lemma specific_calls_sway:
  "specific_calls p g_sway =
     Inr [Remove_unit ''wayland-wm-env@sway.service.d/50_custom.conf'',
          Remove_unit ''wayland-wm@sway.service.d/50_custom.conf'']"
  by (simp add: specific_calls_def g_sway_def)

text \<open>
  For the descriptor \<open>sway\<close> without name, description, desktop names or arguments,
  \<open>generate_units\<close> passes eleven units to \<open>update_unit\<close>, not nine.
\<close>

theorem generate_units_sway_counterexample:
  "length (emitted_units p_uwsm args_run g_sway) = 11
   \<and> length (emitted_units p_uwsm args_run g_sway) \<noteq> 9"
  by (simp add: emitted_units_def generate_units_calls_def specific_calls_sway generic_calls_def
      tweak_calls_def)

text \<open>
  C5 (amended). For the descriptor with id \<open>sway\<close> and no desktop entry (no name, no
  description, no desktop names of its own, no arguments), \<open>generate_units\<close> passes exactly
  eleven generic units to \<open>update_unit\<close>: four targets, three services, three slices and the
  drop-in of the autostart services. It writes no drop-in of the session: the two are
  passed to \<open>remove_unit\<close>. These thirteen calls, in this order, are what it does to a store.
\<close>

theorem generate_units_sway:
  "emitted_units p args g_sway =
     [''wayland-session-pre@.target'', ''wayland-session@.target'',
      ''wayland-session-xdg-autostart@.target'', ''wayland-session-shutdown.target'',
      ''wayland-wm-env@.service'', ''wayland-wm@.service'', ''wayland-wm-app-daemon.service'',
      ''app-graphical.slice'', ''background-graphical.slice'', ''session-graphical.slice'',
      ''app-@autostart.service.d/slice-tweak.conf'']
   \<and> (\<exists>calls. generate_units_calls p args g_sway = Inr calls
        \<and> generate_units p args g_sway s = run_calls args calls [] (s\<lparr>units_changed := False\<rparr>)
        \<and> length calls = 13
        \<and> map call_unit (filter (\<lambda>c. \<not> is_update c) calls) =
            [''wayland-wm-env@sway.service.d/50_custom.conf'',
             ''wayland-wm@sway.service.d/50_custom.conf''])"
proof -
  obtain calls where c: "generate_units_calls p args g_sway = Inr calls"
    by (simp add: generate_units_calls_def specific_calls_sway)
  then have "generate_units p args g_sway s = run_calls args calls [] (s\<lparr>units_changed := False\<rparr>)"
    by (rule generate_units_run_calls)
  with c show ?thesis
    by (auto simp: emitted_units_def generate_units_calls_def specific_calls_sway
        generic_calls_def tweak_calls_def)
qed

theorem generate_units_sway_witness:
  "length (emitted_units p_uwsm args_run g_sway) = 11
   \<and> (\<exists>calls. generate_units_calls p_uwsm args_run g_sway = Inr calls
        \<and> generate_units p_uwsm args_run g_sway store_empty
            = run_calls args_run calls [] (store_empty\<lparr>units_changed := False\<rparr>)
        \<and> length calls = 13
        \<and> map call_unit (filter (\<lambda>c. \<not> is_update c) calls) =
            [''wayland-wm-env@sway.service.d/50_custom.conf'',
             ''wayland-wm@sway.service.d/50_custom.conf''])"
  using generate_units_sway [of p_uwsm args_run store_empty] by simp

section \<open>Fields of a desktop entry\<close>

lemma field_step_fu_again:
  "is_fu entry_arg \<Longrightarrow> encountered_fu st \<noteq> [] \<Longrightarrow>
     field_step u entry args idx entry_arg st = Inl RuntimeError"
  by (auto simp: is_fu_def field_step_def)

lemma encountered_fu_insert_args [simp]:
  "encountered_fu (insert_args idx xs st) = encountered_fu st"
  by (induction xs arbitrary: st) simp_all

lemma pop_field_encountered:
  "pop_field idx st = Inr st' \<Longrightarrow> encountered_fu st' = encountered_fu st"
  by (auto simp: pop_field_def split: sum.splits)

lemma field_step_other:
  "\<not> is_fu entry_arg \<Longrightarrow> field_step u entry args idx entry_arg st = Inr st' \<Longrightarrow>
     encountered_fu st' = encountered_fu st"
  by (auto simp: is_fu_def field_step_def dest: pop_field_encountered split: sum.splits if_splits)

lemma field_step_fu_first:
  "is_fu entry_arg \<Longrightarrow> field_step u entry args idx entry_arg st = Inr st' \<Longrightarrow>
     encountered_fu st' \<noteq> []"
  by (auto simp: is_fu_def field_step_def Let_def dest!: pop_field_encountered
      split: sum.splits if_splits)

lemma fields_loop_conflict:
  "encountered_fu st \<noteq> [] \<Longrightarrow> \<exists>x\<in>set rest. is_fu x \<Longrightarrow>
     \<exists>e. fields_loop u entry args idx rest st = Inl e"
proof (induction rest arbitrary: idx st)
  case Nil
  then show ?case by simp
next
  case (Cons entry_arg rest)
  show ?case
  proof (cases "field_step u entry args idx entry_arg st")
    case (Inl e)
    then show ?thesis by simp
  next
    case (Inr st')
    with Cons.prems(1) have nf: "\<not> is_fu entry_arg"
      using field_step_fu_again by fastforce
    from nf Inr have "encountered_fu st' = encountered_fu st" by (rule field_step_other)
    moreover from nf Cons.prems(2) have "\<exists>x\<in>set rest. is_fu x" by simp
    ultimately show ?thesis using Cons.IH [of st' "idx + 1"] Cons.prems(1) Inr by simp
  qed
qed

lemma fields_loop_two:
  "2 \<le> length (filter is_fu rest) \<Longrightarrow> \<exists>e. fields_loop u entry args idx rest st = Inl e"
proof (induction rest arbitrary: idx st)
  case Nil
  then show ?case by simp
next
  case (Cons entry_arg rest)
  show ?case
  proof (cases "field_step u entry args idx entry_arg st")
    case (Inl e)
    then show ?thesis by simp
  next
    case (Inr st')
    show ?thesis
    proof (cases "is_fu entry_arg")
      case True
      from True Inr have "encountered_fu st' \<noteq> []" by (rule field_step_fu_first)
      moreover from True Cons.prems have "filter is_fu rest \<noteq> []" by auto
      then have "\<exists>x\<in>set rest. is_fu x" by (auto simp: filter_empty_conv)
      ultimately show ?thesis using fields_loop_conflict Inr by simp
    next
      case False
      with Cons.prems have "2 \<le> length (filter is_fu rest)" by simp
      then show ?thesis using Cons.IH [of "idx + 1" st'] Inr by simp
    qed
  qed
qed

text \<open>
  C9. When the arguments of the entry's command line hold more than one of the fields
  \<open>%f\<close>, \<open>%F\<close>, \<open>%u\<close>, \<open>%U\<close> (each an argument of its own, as \<open>gen_entry_args\<close> looks for
  them), \<open>gen_entry_args\<close> raises an error and returns no command line, whatever the
  arguments given.
\<close>

theorem gen_entry_args_conflicting_fields:
  assumes "2 \<le> length (filter is_fu (tl (entry_argv entry)))"
  shows "\<exists>e. gen_entry_args u (Inr entry) args = Inl e"
proof (cases "entry_argv entry")
  case Nil
  then show ?thesis by (simp add: gen_entry_args_def)
next
  case (Cons entry_cmd entry_args0)
  with assms have "2 \<le> length (filter is_fu entry_args0)" by simp
  then obtain e where
    "fields_loop u entry args 0 entry_args0
       \<lparr>entry_args = entry_args0, expand = 0, encountered_fu = []\<rparr> = Inl e"
    using fields_loop_two by blast
  with Cons show ?thesis by (simp add: gen_entry_args_def)
qed

theorem gen_entry_args_conflicting_fields_witness:
  "2 \<le> length (filter is_fu (tl (entry_argv entry_both)))
   \<and> (\<exists>e. gen_entry_args u_plain (Inr entry_both) [''a.txt''] = Inl e)"
  using gen_entry_args_conflicting_fields [of entry_both u_plain "[''a.txt'']"]
  by (simp add: entry_both_def is_fu_def)

lemma gen_entry_args_f_and_F: "gen_entry_args u_plain (Inr entry_both) [''a.txt''] = Inl RuntimeError"
  by (simp add: gen_entry_args_def entry_both_def field_step_def pop_field_def py_pop_def
      py_index_def py_insert_def Let_def)

section \<open>The name of an application's unit\<close>

lemma hexdigit_not_LF: "hexdigit n \<noteq> LF"
proof -
  have "n mod 16 < length ''0123456789abcdef''" by simp
  then have "hexdigit n \<in> set ''0123456789abcdef''"
    unfolding hexdigit_def by (rule nth_mem)
  then show ?thesis by (auto simp: LF_def)
qed

lemma as_is_not_BS: "as_is ch \<Longrightarrow> ch \<noteq> BS"
  by (auto simp: as_is_def BS_def Let_def)

lemma cesc_byte_is_piece: "is_piece (cesc_byte b)"
  unfolding is_piece_def cesc_byte_def using hexdigit_not_LF by blast

lemma escape_pieces_is_piece: "t \<in> set (escape_pieces ch) \<Longrightarrow> is_piece t"
proof -
  assume t: "t \<in> set (escape_pieces ch)"
  show ?thesis
  proof (cases "ch = CHR ''/''")
    case True
    with t have "t = ''-''" by (simp add: escape_pieces_def)
    then show ?thesis by (simp add: is_piece_def BS_def)
  next
    case False
    show ?thesis
    proof (cases "as_is ch")
      case True
      with False t have "t = [ch]" by (simp add: escape_pieces_def)
      with True show ?thesis using as_is_not_BS is_piece_def by blast
    next
      case nas: False
      with False t have "t \<in> cesc_byte ` set (utf8 ch)" by (simp add: escape_pieces_def)
      then show ?thesis using cesc_byte_is_piece by blast
    qed
  qed
qed

lemma pieces_is_piece: "t \<in> set (pieces string) \<Longrightarrow> is_piece t"
  unfolding pieces_def using escape_pieces_is_piece by auto

lemma simple_systemd_escape_pieces: "simple_systemd_escape string False = concat (pieces string)"
  by (simp add: simple_systemd_escape_def pieces_def)

lemma not_startswith_escape: "BS \<notin> set acc \<Longrightarrow> \<not> startswith acc [BS, CHR ''x'']"
  by (cases acc) (auto simp: startswith_def)

lemma re_split_x_plain: "c \<noteq> BS \<Longrightarrow> re_split_x acc (c # cs) = re_split_x (acc @ [c]) cs"
  by (cases cs; cases "tl cs"; cases "tl (tl cs)") auto

lemma cut_loop_last:
  assumes "\<not> int (length acc) + l < lim" and "BS \<notin> set acc" and "l \<le> lim"
  shows "\<exists>j. cut_loop lim (acc # rest) sub l = sub @ take j acc
            \<and> l + int (length (take j acc)) \<le> lim"
proof -
  have "cut_loop lim (acc # rest) sub l = sub @ take (nat (lim - l)) acc"
    using assms by (simp add: not_startswith_escape slice_to_def)
  moreover have "l + int (length (take (nat (lim - l)) acc)) \<le> lim"
    using assms(3) by simp
  ultimately show ?thesis by blast
qed

lemma cut_loop_pieces:
  assumes "\<forall>t\<in>set T. is_piece t" and "BS \<notin> set acc" and "l \<le> lim"
  shows "\<exists>X. cut_loop lim (re_split_x acc (concat T)) sub l = sub @ X
           \<and> ((\<exists>j. X = take j acc) \<or> (\<exists>k. X = acc @ concat (take k T)))
           \<and> l + int (length X) \<le> lim"
  using assms
proof (induction T arbitrary: acc sub l)
  case Nil
  have r: "re_split_x acc (concat []) = [acc]" by simp
  show ?case
  proof (cases "int (length acc) + l < lim")
    case True
    then have 1: "cut_loop lim [acc] sub l = sub @ acc" by simp
    have 2: "acc = take (length acc) acc" by simp
    have 3: "l + int (length acc) \<le> lim" using True by simp
    show ?thesis unfolding r using 1 2 3 by blast
  next
    case False
    from cut_loop_last [OF False Nil.prems(2,3), of "[]" sub]
    show ?thesis unfolding r by blast
  qed
next
  case (Cons t T)
  from Cons.prems(1) have t: "is_piece t" and T: "\<forall>t\<in>set T. is_piece t" by simp_all
  from t consider (plain) c where "t = [c]" "c \<noteq> BS"
    | (esc) a b where "t = [BS, CHR ''x'', a, b]" "a \<noteq> LF" "b \<noteq> LF"
    unfolding is_piece_def by blast
  then show ?case
  proof cases
    case plain
    then have r: "re_split_x acc (concat (t # T)) = re_split_x (acc @ [c]) (concat T)"
      by (simp add: re_split_x_plain)
    have "BS \<notin> set (acc @ [c])" using plain(2) Cons.prems(2) by auto
    from Cons.IH [OF T this Cons.prems(3), of sub]
    obtain X where X: "cut_loop lim (re_split_x (acc @ [c]) (concat T)) sub l = sub @ X"
      "(\<exists>j. X = take j (acc @ [c])) \<or> (\<exists>k. X = (acc @ [c]) @ concat (take k T))"
      "l + int (length X) \<le> lim"
      by blast
    from X(2) have "(\<exists>j. X = take j acc) \<or> (\<exists>k. X = acc @ concat (take k (t # T)))"
    proof
      assume "\<exists>j. X = take j (acc @ [c])"
      then obtain j where j: "X = take j (acc @ [c])" by blast
      show ?thesis
      proof (cases "j \<le> length acc")
        case True
        with j have "X = take j acc" by simp
        then show ?thesis by blast
      next
        case False
        with j have "X = acc @ concat (take 1 (t # T))" using plain(1) by simp
        then show ?thesis by blast
      qed
    next
      assume "\<exists>k. X = (acc @ [c]) @ concat (take k T)"
      then obtain k where "X = (acc @ [c]) @ concat (take k T)" by blast
      then have "X = acc @ concat (take (Suc k) (t # T))" using plain(1) by simp
      then show ?thesis by blast
    qed
    with X(1,3) show ?thesis unfolding r by blast
  next
    case esc
    have r: "re_split_x acc (concat (t # T)) = acc # t # re_split_x [] (concat T)"
      using esc by simp
    show ?thesis
    proof (cases "int (length acc) + l < lim")
      case False
      from cut_loop_last [OF False Cons.prems(2,3), of "t # re_split_x [] (concat T)" sub]
      show ?thesis unfolding r by blast
    next
      case True
      have st: "startswith t [BS, CHR ''x'']" using esc(1) by (simp add: startswith_def)
      have lt: "int (length t) = 4" using esc(1) by simp
      show ?thesis
      proof (cases "4 + (l + int (length acc)) < lim")
        case False
        have 1: "cut_loop lim (acc # t # re_split_x [] (concat T)) sub l = sub @ acc"
          using True False st lt by simp
        have 2: "acc = acc @ concat (take 0 (t # T))" by simp
        have 3: "l + int (length acc) \<le> lim" using True by simp
        show ?thesis unfolding r using 1 2 3 by blast
      next
        case four: True
        have c: "cut_loop lim (acc # t # re_split_x [] (concat T)) sub l
                 = cut_loop lim (re_split_x [] (concat T)) (sub @ acc @ t) (l + int (length acc) + 4)"
          using True four lt by simp
        have b: "BS \<notin> set []" by simp
        have le: "l + int (length acc) + 4 \<le> lim" using four by simp
        from Cons.IH [OF T b le, of "sub @ acc @ t"]
        obtain X where X:
          "cut_loop lim (re_split_x [] (concat T)) (sub @ acc @ t) (l + int (length acc) + 4)
             = (sub @ acc @ t) @ X"
          "(\<exists>j. X = take j []) \<or> (\<exists>k. X = [] @ concat (take k T))"
          "l + int (length acc) + 4 + int (length X) \<le> lim"
          by blast
        from X(2) have "\<exists>k. X = concat (take k T)"
        proof
          assume "\<exists>j. X = take j []"
          then have "X = concat (take 0 T)" by simp
          then show ?thesis by blast
        next
          assume "\<exists>k. X = [] @ concat (take k T)"
          then show ?thesis by simp
        qed
        then obtain k where k: "X = concat (take k T)" by blast
        have 1: "cut_loop lim (acc # t # re_split_x [] (concat T)) sub l = sub @ (acc @ t @ X)"
          using c X(1) by simp
        have 2: "acc @ t @ X = acc @ concat (take (Suc k) (t # T))" using k by simp
        have 3: "l + int (length (acc @ t @ X)) \<le> lim" using X(3) lt by simp
        show ?thesis unfolding r using 1 2 3 by blast
      qed
    qed
  qed
qed

lemma split_chr_not_Nil: "split_chr c s \<noteq> []"
  by (induction s) (auto split: list.splits)

lemma length_random_hex: "length (random_hex rng n) = n"
  by (simp add: random_hex_def)

lemma cut_desktop_pieces:
  assumes "l_static ty \<le> 127"
  shows "\<exists>k. cut_desktop ty (concat (pieces s)) = concat (take k (pieces s))
           \<and> l_static ty + int (length (cut_desktop ty (concat (pieces s)))) \<le> 127"
proof (cases "l_static ty + int (length (concat (pieces s))) > 127")
  case False
  then have "cut_desktop ty (concat (pieces s)) = concat (take (length (pieces s)) (pieces s))"
    by (simp add: cut_desktop_def)
  moreover have "l_static ty + int (length (cut_desktop ty (concat (pieces s)))) \<le> 127"
    using False by (simp add: cut_desktop_def)
  ultimately show ?thesis by blast
next
  case True
  have p: "\<forall>t\<in>set (pieces s). is_piece t" using pieces_is_piece by blast
  have b: "BS \<notin> set []" by simp
  from cut_loop_pieces [OF p b assms, of "[]"]
  obtain X where X: "cut_loop 127 (re_split_x [] (concat (pieces s))) [] (l_static ty) = [] @ X"
    "(\<exists>j. X = take j []) \<or> (\<exists>k. X = [] @ concat (take k (pieces s)))"
    "l_static ty + int (length X) \<le> 127"
    by blast
  from X(2) have "\<exists>k. X = concat (take k (pieces s))"
  proof
    assume "\<exists>j. X = take j []"
    then have "X = concat (take 0 (pieces s))" by simp
    then show ?thesis by blast
  next
    assume "\<exists>k. X = [] @ concat (take k (pieces s))"
    then show ?thesis by simp
  qed
  moreover have "cut_desktop ty (concat (pieces s)) = X"
    using True X(1) by (simp add: cut_desktop_def)
  ultimately show ?thesis using X(3) by auto
qed

lemma cut_cmd_pieces:
  assumes "l_static ty + int (length d) \<le> 255"
  shows "\<exists>k. cut_cmd ty d (concat (pieces s)) = concat (take k (pieces s))
           \<and> l_static ty + int (length d) + int (length (cut_cmd ty d (concat (pieces s)))) \<le> 255"
proof (cases "l_static ty + int (length d) + int (length (concat (pieces s))) > 255")
  case False
  then have "cut_cmd ty d (concat (pieces s)) = concat (take (length (pieces s)) (pieces s))"
    by (simp add: cut_cmd_def)
  moreover have
    "l_static ty + int (length d) + int (length (cut_cmd ty d (concat (pieces s)))) \<le> 255"
    using False by (simp add: cut_cmd_def)
  ultimately show ?thesis by blast
next
  case True
  have p: "\<forall>t\<in>set (pieces s). is_piece t" using pieces_is_piece by blast
  have b: "BS \<notin> set []" by simp
  from cut_loop_pieces [OF p b assms, of "[]"]
  obtain X where X:
    "cut_loop 255 (re_split_x [] (concat (pieces s))) [] (l_static ty + int (length d)) = [] @ X"
    "(\<exists>j. X = take j []) \<or> (\<exists>k. X = [] @ concat (take k (pieces s)))"
    "l_static ty + int (length d) + int (length X) \<le> 255"
    by blast
  from X(2) have "\<exists>k. X = concat (take k (pieces s))"
  proof
    assume "\<exists>j. X = take j []"
    then have "X = concat (take 0 (pieces s))" by simp
    then show ?thesis by blast
  next
    assume "\<exists>k. X = [] @ concat (take k (pieces s))"
    then show ?thesis by simp
  qed
  moreover have "cut_cmd ty d (concat (pieces s)) = X"
    using True X(1) by (simp add: cut_cmd_def)
  ultimately show ?thesis using X(3) by auto
qed

lemma app_unit_name_eq:
  assumes "xdg_current_desktop \<noteq> Some []" and "app_name \<noteq> [] \<or> cmdline \<noteq> []"
    and "app_unit_type = ''scope'' \<or> app_unit_type = ''service''"
  shows "app_unit_name rng xdg_current_desktop app_name cmdline app_unit_type [] =
     Inr (''app-''
          @ cut_desktop app_unit_type (concat (pieces (first_desktop xdg_current_desktop)))
          @ ''-''
          @ cut_cmd app_unit_type
              (cut_desktop app_unit_type (concat (pieces (first_desktop xdg_current_desktop))))
              (concat (pieces (app_command app_name cmdline)))
          @ (if app_unit_type = ''scope'' then ''-'' else ''@'')
          @ random_hex rng 8 @ ''.'' @ app_unit_type)"
proof -
  let ?v = "case xdg_current_desktop of None \<Rightarrow> ''uwsm'' | Some v \<Rightarrow> v"
  have "?v \<noteq> []" using assms(1) by (cases xdg_current_desktop) auto
  then have "sane_split ?v CHR '':'' = split_chr CHR '':'' ?v" by (simp add: sane_split_def)
  then obtain desktop rest where s: "sane_split ?v CHR '':'' = desktop # rest"
    using split_chr_not_Nil [of "CHR '':''" ?v] by (cases "split_chr CHR '':'' ?v") auto
  then have d: "first_desktop xdg_current_desktop = desktop" by (simp add: first_desktop_def)
  from assms(3) show ?thesis
  proof
    assume "app_unit_type = ''scope''"
    then show ?thesis
      using s assms(2)
      by (simp add: app_unit_name_def d [symmetric] simple_systemd_escape_pieces app_command_def
          Let_def)
  next
    assume "app_unit_type = ''service''"
    then show ?thesis
      using s assms(2)
      by (simp add: app_unit_name_def d [symmetric] simple_systemd_escape_pieces app_command_def
          Let_def)
  qed
qed

text \<open>
  C8. When no unit name is given, for every first desktop name and every command (or
  application name) and for both unit types, \<open>app\<close> makes a unit name of at most 255
  characters; in it the desktop part and the command part are whole pieces of the escaped
  strings, a piece being one character or one \<open>\xXX\<close> sequence: no escape sequence is cut.
  (\<open>app\<close> raises instead when \<open>XDG_CURRENT_DESKTOP\<close> is set and empty, when there is neither
  an application name nor a command, or when the unit type is neither of the two.)
\<close>

theorem app_unit_name_bounded:
  assumes "xdg_current_desktop \<noteq> Some []" and "app_name \<noteq> [] \<or> cmdline \<noteq> []"
    and "app_unit_type = ''scope'' \<or> app_unit_type = ''service''"
  shows "\<exists>name kd kc.
     app_unit_name rng xdg_current_desktop app_name cmdline app_unit_type [] = Inr name
     \<and> length name \<le> 255
     \<and> name = ''app-'' @ concat (take kd (pieces (first_desktop xdg_current_desktop)))
          @ ''-'' @ concat (take kc (pieces (app_command app_name cmdline)))
          @ (if app_unit_type = ''scope'' then ''-'' else ''@'')
          @ random_hex rng 8 @ ''.'' @ app_unit_type"
proof -
  let ?ty = app_unit_type
  let ?D = "pieces (first_desktop xdg_current_desktop)"
  let ?C = "pieces (app_command app_name cmdline)"
  let ?d = "cut_desktop ?ty (concat ?D)"
  let ?c = "cut_cmd ?ty ?d (concat ?C)"
  have ls: "l_static ?ty = 15 + int (length ?ty)" by (simp add: l_static_def)
  have ty: "length ?ty \<le> 7" using assms(3) by auto
  then have "l_static ?ty \<le> 127" using ls by simp
  from cut_desktop_pieces [OF this, of "first_desktop xdg_current_desktop"]
  obtain kd where kd: "?d = concat (take kd ?D)" and dl: "l_static ?ty + int (length ?d) \<le> 127"
    by blast
  from dl have "l_static ?ty + int (length ?d) \<le> 255" by simp
  from cut_cmd_pieces [OF this, of "app_command app_name cmdline"]
  obtain kc where kc: "?c = concat (take kc ?C)"
    and cl: "l_static ?ty + int (length ?d) + int (length ?c) \<le> 255"
    by blast
  let ?name = "''app-'' @ ?d @ ''-'' @ ?c @ (if ?ty = ''scope'' then ''-'' else ''@'')
          @ random_hex rng 8 @ ''.'' @ ?ty"
  have e: "app_unit_name rng xdg_current_desktop app_name cmdline ?ty [] = Inr ?name"
    using assms by (rule app_unit_name_eq)
  have "int (length ?name) = l_static ?ty + int (length ?d) + int (length ?c)"
    by (simp add: ls length_random_hex)
  with cl have l: "length ?name \<le> 255" by simp
  have n: "?name = ''app-'' @ concat (take kd ?D) @ ''-'' @ concat (take kc ?C)
          @ (if ?ty = ''scope'' then ''-'' else ''@'') @ random_hex rng 8 @ ''.'' @ ?ty"
    using kd kc by simp
  from e l n show ?thesis by blast
qed

theorem app_unit_name_bounded_witness:
  "\<exists>name kd kc.
     app_unit_name (\<lambda>i. i) (Some ''sway:wlroots'') [] [''/usr/bin/foot''] ''scope'' [] = Inr name
     \<and> length name \<le> 255
     \<and> name = ''app-'' @ concat (take kd (pieces (first_desktop (Some ''sway:wlroots''))))
          @ ''-'' @ concat (take kc (pieces (app_command [] [''/usr/bin/foot''])))
          @ ''-'' @ random_hex (\<lambda>i. i) 8 @ ''.'' @ ''scope''"
  using app_unit_name_bounded [of "Some ''sway:wlroots''" "[]" "[''/usr/bin/foot'']" "''scope''" "\<lambda>i. i"]
  by simp

section \<open>Running generate_units twice\<close>

lemma check_mkdir_files [simp]:
  "files (check_mkdir args d s) = files s" "units_changed (check_mkdir args d s) = units_changed s"
  by (simp_all add: check_mkdir_def)

lemma mkdir_elements_files [simp]:
  "files (mkdir_elements args d es s) = files s"
  "units_changed (mkdir_elements args d es s) = units_changed s"
  by (induction es arbitrary: d s) simp_all

lemma update_unit_error:
  "unit_location args unit = Inl e \<Longrightarrow> update_unit args unit data s = (Inl e, s)"
  by (auto simp: unit_location_def update_unit_def split: if_splits sum.splits prod.splits)

lemma remove_unit_error:
  "unit_location args unit = Inl e \<Longrightarrow> remove_unit args unit s = (Inl e, s)"
  by (auto simp: unit_location_def remove_unit_def split: if_splits sum.splits prod.splits)

lemma update_unit_files:
  assumes "unit_location args unit = Inr unit_path" and "\<not> dry_run args"
  shows "\<exists>s'. update_unit args unit data s = (Inr (data \<noteq> read_text (files s) unit_path), s')
     \<and> files s' = (if data \<noteq> read_text (files s) unit_path
                    then AList.update unit_path data (files s) else files s)
     \<and> units_changed s' = (units_changed s \<or> data \<noteq> read_text (files s) unit_path)"
proof -
  from assms(1) obtain unit_dir unit' where
    r: "(if isabs unit then Inr (''/'', normpath unit)
         else if count_slash unit > 1 then Inl ValueError
         else get_unit_path args unit) = Inr (unit_dir, unit')"
    and p: "unit_path = path_join unit_dir unit'" and m: "re_search_Z unit_ext unit"
    by (auto simp: unit_location_def split: if_splits sum.splits prod.splits)
  show ?thesis
    unfolding update_unit_def using m assms(2)
    by (simp only: r) (auto simp: Let_def p read_text_def split: option.splits)
qed

lemma remove_unit_files:
  assumes "unit_location args unit = Inr unit_path" and "\<not> dry_run args"
  shows "\<exists>s'. remove_unit args unit s = (Inr (unit_path \<in> fst ` set (files s)), s')
     \<and> files s' = AList.delete unit_path (files s)
     \<and> units_changed s' = (units_changed s \<or> unit_path \<in> fst ` set (files s))"
proof -
  from assms(1) obtain unit_dir unit' where
    r: "(if isabs unit then Inr (''/'', normpath unit)
         else if count_slash unit > 1 then Inl ValueError
         else get_unit_path args unit) = Inr (unit_dir, unit')"
    and p: "unit_path = path_join unit_dir unit'" and m: "re_search_Z unit_ext unit"
    by (auto simp: unit_location_def split: if_splits sum.splits prod.splits)
  have d: "AList.delete k fs = fs" if "k \<notin> fst ` set fs" for k and fs :: "(string \<times> string) list"
    using that by (induction fs) auto
  show ?thesis
    unfolding remove_unit_def using m assms(2)
    by (simp only: r) (auto simp: Let_def p d)
qed

lemma run_call_error:
  "unit_location args (call_unit c) = Inl e \<Longrightarrow> run_call args c s = (Inl e, s)"
  by (cases c) (simp_all add: run_call_def update_unit_error remove_unit_error)

lemma run_call_update:
  assumes "unit_location args unit = Inr unit_path" and "\<not> dry_run args"
  shows "\<exists>s'. run_call args (Update_unit unit data) s
              = (Inr (data \<noteq> read_text (files s) unit_path), s')
     \<and> files s' = (if data \<noteq> read_text (files s) unit_path
                    then AList.update unit_path data (files s) else files s)
     \<and> units_changed s' = (units_changed s \<or> data \<noteq> read_text (files s) unit_path)"
  using update_unit_files [OF assms] by (simp add: run_call_def)

lemma run_call_remove:
  assumes "unit_location args unit = Inr unit_path" and "\<not> dry_run args"
  shows "\<exists>s'. run_call args (Remove_unit unit) s = (Inr (unit_path \<in> fst ` set (files s)), s')
     \<and> files s' = AList.delete unit_path (files s)
     \<and> units_changed s' = (units_changed s \<or> unit_path \<in> fst ` set (files s))"
  using remove_unit_files [OF assms] by (simp add: run_call_def)

lemma run_call_located:
  assumes "run_call args c s = (Inr r, s')"
  shows "\<exists>unit_path. unit_location args (call_unit c) = Inr unit_path"
proof (cases "unit_location args (call_unit c)")
  case (Inl e)
  then have "run_call args c s = (Inl e, s)" by (rule run_call_error)
  with assms show ?thesis by simp
next
  case (Inr unit_path)
  then show ?thesis by blast
qed

lemma read_text_update_same:
  "CR \<notin> set data \<Longrightarrow> read_text (AList.update unit_path data fs) unit_path = data"
  by (simp add: read_text_def update_conv' universal_newlines_id)

lemma read_text_update_other:
  "q \<noteq> unit_path \<Longrightarrow> read_text (AList.update unit_path data fs) q = read_text fs q"
  by (simp add: read_text_def update_conv')

lemma read_text_delete_other:
  "q \<noteq> unit_path \<Longrightarrow> read_text (AList.delete unit_path fs) q = read_text fs q"
  by (simp add: read_text_def delete_conv')

lemma keys_update: "fst ` set (AList.update k v fs) = insert k (fst ` set fs)"
  using dom_update [of k v fs] by (simp add: dom_map_of_conv_image_fst)

lemma keys_delete: "fst ` set (AList.delete k fs) = fst ` set fs - {k}"
  by (induction fs) auto

lemma run_call_settles:
  assumes "run_call args c s = (Inr r, s')" and "\<not> dry_run args" and "CR \<notin> set (call_data c)"
  shows "settled args c (files s')"
proof -
  from run_call_located [OF assms(1)] obtain unit_path
    where l: "unit_location args (call_unit c) = Inr unit_path" by blast
  show ?thesis
  proof (cases c)
    case (Update_unit unit data)
    with l have lu: "unit_location args unit = Inr unit_path" by simp
    from run_call_update [OF lu assms(2), of data s] assms(1) Update_unit
    have f: "files s' = (if data \<noteq> read_text (files s) unit_path
                    then AList.update unit_path data (files s) else files s)"
      by auto
    have "read_text (files s') unit_path = data"
      using f assms(3) Update_unit by (auto simp: read_text_update_same)
    with l Update_unit show ?thesis by (simp add: settled_def)
  next
    case (Remove_unit unit)
    with l have lu: "unit_location args unit = Inr unit_path" by simp
    from run_call_remove [OF lu assms(2), of s] assms(1) Remove_unit
    have "files s' = AList.delete unit_path (files s)" by auto
    then have "unit_path \<notin> fst ` set (files s')" by (simp add: keys_delete)
    with l Remove_unit show ?thesis by (simp add: settled_def)
  qed
qed

lemma run_call_other_path:
  assumes "run_call args c s = (Inr r, s')" and "\<not> dry_run args"
    and "unit_location args (call_unit c) = Inr unit_path" and "q \<noteq> unit_path"
  shows "read_text (files s') q = read_text (files s) q"
    and "q \<in> fst ` set (files s') \<longleftrightarrow> q \<in> fst ` set (files s)"
proof -
  have "read_text (files s') q = read_text (files s) q
        \<and> (q \<in> fst ` set (files s') \<longleftrightarrow> q \<in> fst ` set (files s))"
  proof (cases c)
    case (Update_unit unit data)
    with assms(3) have lu: "unit_location args unit = Inr unit_path" by simp
    from run_call_update [OF lu assms(2), of data s] assms(1) Update_unit
    have "files s' = (if data \<noteq> read_text (files s) unit_path
                    then AList.update unit_path data (files s) else files s)"
      by auto
    then show ?thesis using assms(4) by (auto simp: read_text_update_other keys_update)
  next
    case (Remove_unit unit)
    with assms(3) have lu: "unit_location args unit = Inr unit_path" by simp
    from run_call_remove [OF lu assms(2), of s] assms(1) Remove_unit
    have "files s' = AList.delete unit_path (files s)" by auto
    then show ?thesis using assms(4) by (auto simp: read_text_delete_other keys_delete)
  qed
  then show "read_text (files s') q = read_text (files s) q"
    and "q \<in> fst ` set (files s') \<longleftrightarrow> q \<in> fst ` set (files s)" by simp_all
qed

lemma run_call_keeps_settled:
  assumes "settled args d (files s)" and "run_call args c s = (Inr r, s')" and "\<not> dry_run args"
    and "unit_location args (call_unit d) \<noteq> unit_location args (call_unit c)"
  shows "settled args d (files s')"
proof -
  from run_call_located [OF assms(2)] obtain unit_path
    where l: "unit_location args (call_unit c) = Inr unit_path" by blast
  from assms(1) obtain q where q: "unit_location args (call_unit d) = Inr q"
    by (auto simp: settled_def split: sum.splits)
  with l assms(4) have "q \<noteq> unit_path" by auto
  from run_call_other_path [OF assms(2,3) l this] assms(1) q
  show ?thesis by (simp add: settled_def)
qed

lemma run_calls_keeps_settled:
  assumes "settled args d (files s)" and "run_calls args cs rs s = (Inr rs', s')"
    and "\<not> dry_run args"
    and "unit_location args (call_unit d) \<notin> (\<lambda>c. unit_location args (call_unit c)) ` set cs"
  shows "settled args d (files s')"
  using assms
proof (induction cs arbitrary: rs s)
  case Nil
  then show ?case by simp
next
  case (Cons c cs)
  from Cons.prems(2) obtain r s1 where 1: "run_call args c s = (Inr r, s1)"
    and 2: "run_calls args cs (rs @ [r]) s1 = (Inr rs', s')"
    by (auto split: prod.splits sum.splits)
  from Cons.prems(4) have ne: "unit_location args (call_unit d) \<noteq> unit_location args (call_unit c)"
    and rest: "unit_location args (call_unit d)
                \<notin> (\<lambda>c. unit_location args (call_unit c)) ` set cs" by auto
  from run_call_keeps_settled [OF Cons.prems(1) 1 Cons.prems(3) ne]
  have "settled args d (files s1)" .
  from Cons.IH [OF this 2 Cons.prems(3) rest] show ?case .
qed

lemma first_pass_settles:
  assumes "run_calls args cs rs s = (Inr rs', s')" and "\<not> dry_run args"
    and "distinct (map (\<lambda>c. unit_location args (call_unit c)) cs)"
    and "\<forall>c\<in>set cs. CR \<notin> set (call_data c)"
  shows "\<forall>c\<in>set cs. settled args c (files s')"
  using assms
proof (induction cs arbitrary: rs s)
  case Nil
  then show ?case by simp
next
  case (Cons c cs)
  from Cons.prems(1) obtain r s1 where 1: "run_call args c s = (Inr r, s1)"
    and 2: "run_calls args cs (rs @ [r]) s1 = (Inr rs', s')"
    by (auto split: prod.splits sum.splits)
  from Cons.prems(3) have d: "distinct (map (\<lambda>c. unit_location args (call_unit c)) cs)"
    and n: "unit_location args (call_unit c)
             \<notin> (\<lambda>c. unit_location args (call_unit c)) ` set cs" by auto
  from Cons.prems(4) have cr: "CR \<notin> set (call_data c)"
    and crs: "\<forall>c\<in>set cs. CR \<notin> set (call_data c)" by auto
  from run_call_settles [OF 1 Cons.prems(2) cr] have "settled args c (files s1)" .
  from run_calls_keeps_settled [OF this 2 Cons.prems(2) n] have "settled args c (files s')" .
  moreover from Cons.IH [OF 2 Cons.prems(2) d crs] have "\<forall>c\<in>set cs. settled args c (files s')" .
  ultimately show ?case by simp
qed

lemma settled_run_call:
  assumes "settled args c (files s)" and "\<not> dry_run args"
  shows "\<exists>s'. run_call args c s = (Inr False, s') \<and> files s' = files s
           \<and> units_changed s' = units_changed s"
proof -
  from assms(1) obtain unit_path where l: "unit_location args (call_unit c) = Inr unit_path"
    by (auto simp: settled_def split: sum.splits)
  show ?thesis
  proof (cases c)
    case (Update_unit unit data)
    with l have lu: "unit_location args unit = Inr unit_path" by simp
    from assms(1) l Update_unit have "read_text (files s) unit_path = data"
      by (simp add: settled_def)
    with run_call_update [OF lu assms(2), of data s] Update_unit show ?thesis by auto
  next
    case (Remove_unit unit)
    with l have lu: "unit_location args unit = Inr unit_path" by simp
    from assms(1) l Remove_unit have n: "unit_path \<notin> fst ` set (files s)"
      by (simp add: settled_def)
    have "AList.delete unit_path (files s) = files s"
      using n by (induction "files s") (auto simp: delete_notin_dom)
    with run_call_remove [OF lu assms(2), of s] Remove_unit n show ?thesis by auto
  qed
qed

lemma second_pass_changes_nothing:
  assumes "\<forall>c\<in>set cs. settled args c (files s)" and "\<not> dry_run args"
  shows "\<exists>s'. run_calls args cs rs s = (Inr (rs @ replicate (length cs) False), s')
           \<and> files s' = files s \<and> units_changed s' = units_changed s"
  using assms
proof (induction cs arbitrary: rs s)
  case Nil
  then show ?case by simp
next
  case (Cons c cs)
  from Cons.prems(1) have "settled args c (files s)" by simp
  from settled_run_call [OF this Cons.prems(2)] obtain s1 where
    1: "run_call args c s = (Inr False, s1)" "files s1 = files s" "units_changed s1 = units_changed s"
    by blast
  from Cons.prems(1) 1(2) have "\<forall>c\<in>set cs. settled args c (files s1)" by simp
  from Cons.IH [OF this Cons.prems(2), of "rs @ [False]"] obtain s' where
    2: "run_calls args cs (rs @ [False]) s1 = (Inr ((rs @ [False]) @ replicate (length cs) False), s')"
       "files s' = files s1" "units_changed s' = units_changed s1"
    by blast
  have "(rs @ [False]) @ replicate (length cs) False = rs @ replicate (length (c # cs)) False"
    by simp
  with 1 2 show ?case by simp
qed

lemma split_chr_none: "c \<notin> set s \<Longrightarrow> split_chr c s = [s]"
  by (induction s) auto

lemma split_chr_one: "c \<notin> set d \<Longrightarrow> split_chr c (d @ c # f) = d # split_chr c f"
  by (induction d) auto

lemma simple_not_abs: "simple_name d \<Longrightarrow> \<not> startswith (d @ r) ''/''"
  by (cases d) (auto simp: simple_name_def startswith_def)

lemma normpath_simple: "simple_name n \<Longrightarrow> normpath n = n"
proof -
  assume s: "simple_name n"
  then have a: "\<not> startswith n ''/''" using simple_not_abs [of n "[]"] by simp
  from s have sp: "split_chr CHR ''/'' n = [n]" by (auto simp: simple_name_def split_chr_none)
  from s have "norm_comps False [n] [] = [n]" by (simp add: simple_name_def)
  with s a sp show ?thesis by (simp add: normpath_def simple_name_def)
qed

lemma normpath_dir_name:
  assumes "simple_name d" and "simple_name f"
  shows "normpath (d @ CHR ''/'' # f) = d @ CHR ''/'' # f"
proof -
  have a: "\<not> startswith (d @ CHR ''/'' # f) ''/''" using assms(1) by (rule simple_not_abs)
  have sp: "split_chr CHR ''/'' (d @ CHR ''/'' # f) = [d, f]"
    using assms by (auto simp: simple_name_def split_chr_one split_chr_none)
  have "norm_comps False [d, f] [] = [d, f]" using assms by (simp add: simple_name_def)
  with a sp assms show ?thesis by (simp add: normpath_def simple_name_def)
qed

lemma path_join_inject:
  "\<not> startswith a ''/'' \<Longrightarrow> \<not> startswith b ''/'' \<Longrightarrow> path_join u a = path_join u b \<Longrightarrow> a = b"
  by (auto simp: path_join_def split: if_splits)

lemma count_slash_simple: "simple_name n \<Longrightarrow> count_slash n = 0"
  by (auto simp: simple_name_def count_slash_def filter_empty_conv)

lemma count_slash_dir_name:
  "simple_name d \<Longrightarrow> simple_name f \<Longrightarrow> count_slash (d @ CHR ''/'' # f) = 1"
  by (auto simp: simple_name_def count_slash_def filter_empty_conv)

lemma re_search_Z_suffix: "fullmatch r b \<Longrightarrow> re_search_Z r (a @ b)"
proof (induction a)
  case Nil
  then show ?case by (cases b) (simp_all add: re_search_Z_def)
next
  case (Cons x a)
  then show ?case by (simp add: re_search_Z_def)
qed

lemma plain_unit_not_abs: "plain_unit unit \<Longrightarrow> \<not> startswith unit ''/''"
  unfolding plain_unit_def using simple_not_abs [of _ "[]"] simple_not_abs by auto

lemma plain_unit_location:
  assumes "plain_unit unit" and "runtime_dir args = Some rt" and "rt \<noteq> []"
  shows "unit_location args unit = Inr (path_join (unit_dir_of rt) unit)"
proof -
  from assms(1) have m: "re_search_Z unit_ext unit" by (simp add: plain_unit_def)
  have a: "\<not> isabs unit" using plain_unit_not_abs [OF assms(1)] by (simp add: isabs_def)
  from assms(1) have n: "normpath unit = unit" and c: "\<not> count_slash unit > 1"
    by (auto simp: plain_unit_def normpath_simple normpath_dir_name count_slash_simple
        count_slash_dir_name)
  show ?thesis
    using m a n c assms(2,3)
    by (simp add: unit_location_def get_unit_path_def unit_dir_of_def)
qed

lemma plain_units_distinct_locations:
  assumes "\<forall>u\<in>set units. plain_unit u" and "distinct units"
    and "runtime_dir args = Some rt" and "rt \<noteq> []"
  shows "distinct (map (unit_location args) units)"
proof -
  have "inj_on (unit_location args) (set units)"
  proof (rule inj_onI)
    fix a b assume a: "a \<in> set units" and b: "b \<in> set units"
      and e: "unit_location args a = unit_location args b"
    from a b assms(1) have pa: "plain_unit a" and pb: "plain_unit b" by simp_all
    from e have "path_join (unit_dir_of rt) a = path_join (unit_dir_of rt) b"
      using plain_unit_location [OF pa assms(3,4)] plain_unit_location [OF pb assms(3,4)]
      by simp
    then show "a = b"
      using plain_unit_not_abs [OF pa] plain_unit_not_abs [OF pb] path_join_inject by blast
  qed
  with assms(2) show ?thesis by (simp add: distinct_map)
qed


lemma generic_units_match:
  "list_all (re_search_Z unit_ext)
     [''wayland-session-pre@.target'', ''wayland-session@.target'',
      ''wayland-session-xdg-autostart@.target'', ''wayland-session-shutdown.target'',
      ''wayland-wm-env@.service'', ''wayland-wm@.service'', ''wayland-wm-app-daemon.service'',
      ''app-graphical.slice'', ''background-graphical.slice'', ''session-graphical.slice'',
      ''app-@autostart.service.d/slice-tweak.conf'']"
  by code_simp

lemma dropin_suffix_match: "fullmatch unit_ext ''service.d/50_custom.conf''"
  by code_simp

lemma generic_calls_plain: "c \<in> set (generic_calls p slice) \<Longrightarrow> plain_unit (call_unit c)"
  using generic_units_match
  by (auto simp: generic_calls_def plain_unit_def simple_name_def)

lemma tweak_calls_plain: "c \<in> set (tweak_calls p) \<Longrightarrow> plain_unit (call_unit c)"
proof -
  assume "c \<in> set (tweak_calls p)"
  then have u: "call_unit c = ''app-@autostart.service.d'' @ CHR ''/'' # ''slice-tweak.conf''"
    by (simp add: tweak_calls_def)
  have "simple_name ''app-@autostart.service.d''" "simple_name ''slice-tweak.conf''"
    by (simp_all add: simple_name_def)
  moreover have "re_search_Z unit_ext (call_unit c)"
    using generic_units_match u by simp
  ultimately show ?thesis unfolding plain_unit_def using u by blast
qed

lemma dropin_plain:
  assumes "CHR ''/'' \<notin> set x" and "pre \<noteq> []" and "CHR ''/'' \<notin> set pre" and "hd pre \<noteq> CHR ''.''"
  shows "plain_unit (pre @ x @ ''.service.d/50_custom.conf'')"
proof -
  have e: "pre @ x @ ''.service.d/50_custom.conf'' = (pre @ x @ ''.service.d'') @ CHR ''/'' # ''50_custom.conf''"
    by simp
  have d: "simple_name (pre @ x @ ''.service.d'')"
    using assms by (cases pre) (auto simp: simple_name_def)
  have f: "simple_name ''50_custom.conf''" by (simp add: simple_name_def)
  have "pre @ x @ ''.service.d/50_custom.conf'' = (pre @ x @ ''.'') @ ''service.d/50_custom.conf''"
    by simp
  then have m: "re_search_Z unit_ext (pre @ x @ ''.service.d/50_custom.conf'')"
    using re_search_Z_suffix [OF dropin_suffix_match] by metis
  show ?thesis unfolding plain_unit_def using m d f e by blast
qed

lemma specific_calls_units:
  assumes "specific_calls p g = Inr calls"
  shows "map call_unit calls =
     [''wayland-wm-env@'' @ wm_id_unit_string g @ ''.service.d/50_custom.conf'',
      ''wayland-wm@'' @ wm_id_unit_string g @ ''.service.d/50_custom.conf'']"
  using assms by (auto simp: specific_calls_def Let_def split: if_splits)

lemma specific_calls_plain:
  assumes "specific_calls p g = Inr calls" and "CHR ''/'' \<notin> set (wm_id_unit_string g)"
    and "c \<in> set calls"
  shows "plain_unit (call_unit c)"
proof -
  from assms(3) have "call_unit c \<in> set (map call_unit calls)" by simp
  then have "call_unit c = ''wayland-wm-env@'' @ wm_id_unit_string g @ ''.service.d/50_custom.conf''
      \<or> call_unit c = ''wayland-wm@'' @ wm_id_unit_string g @ ''.service.d/50_custom.conf''"
    unfolding specific_calls_units [OF assms(1)] by simp
  moreover have "plain_unit (''wayland-wm-env@'' @ wm_id_unit_string g @ ''.service.d/50_custom.conf'')"
    using assms(2) by (intro dropin_plain) simp_all
  moreover have "plain_unit (''wayland-wm@'' @ wm_id_unit_string g @ ''.service.d/50_custom.conf'')"
    using assms(2) by (intro dropin_plain) simp_all
  ultimately show ?thesis by auto
qed

lemma generate_units_calls_plain:
  assumes "generate_units_calls p args g = Inr calls" and "CHR ''/'' \<notin> set (wm_id_unit_string g)"
    and "c \<in> set calls"
  shows "plain_unit (call_unit c)"
proof -
  from assms(1) obtain sc where sc: "specific_calls p g = Inr sc"
    and calls: "calls = generic_calls p (if use_session_slice args then ''session.slice'' else ''app.slice'')
               @ sc @ tweak_calls p"
    by (auto simp: generate_units_calls_def split: sum.splits)
  from assms(3) calls show ?thesis
    using generic_calls_plain tweak_calls_plain specific_calls_plain [OF sc assms(2)] by auto
qed

lemma slash_dropin: "CHR ''/'' \<in> set (pre @ x @ ''.service.d/50_custom.conf'')"
  by simp

lemma generate_units_calls_distinct:
  assumes "generate_units_calls p args g = Inr calls"
  shows "distinct (map call_unit calls)" and "length calls = 13"
proof -
  from assms obtain sc where sc: "specific_calls p g = Inr sc"
    and calls: "calls = generic_calls p (if use_session_slice args then ''session.slice'' else ''app.slice'')
               @ sc @ tweak_calls p"
    by (auto simp: generate_units_calls_def split: sum.splits)
  let ?a = "''wayland-wm-env@'' @ wm_id_unit_string g @ ''.service.d/50_custom.conf''"
  let ?b = "''wayland-wm@'' @ wm_id_unit_string g @ ''.service.d/50_custom.conf''"
  have u: "map call_unit calls =
     [''wayland-session-pre@.target'', ''wayland-session@.target'',
      ''wayland-session-xdg-autostart@.target'', ''wayland-session-shutdown.target'',
      ''wayland-wm-env@.service'', ''wayland-wm@.service'', ''wayland-wm-app-daemon.service'',
      ''app-graphical.slice'', ''background-graphical.slice'', ''session-graphical.slice'']
     @ [?a, ?b] @ [''app-@autostart.service.d/slice-tweak.conf'']"
    unfolding calls using specific_calls_units [OF sc]
    by (simp add: generic_calls_def tweak_calls_def)
  have sa: "CHR ''/'' \<in> set ?a" and sb: "CHR ''/'' \<in> set ?b" by simp_all
  have ab: "?a \<noteq> ?b" by simp
  have ta: "?a \<noteq> ''app-@autostart.service.d/slice-tweak.conf''"
    and tb: "?b \<noteq> ''app-@autostart.service.d/slice-tweak.conf''" by simp_all
  have g: "\<forall>n \<in> set [''wayland-session-pre@.target'', ''wayland-session@.target'',
      ''wayland-session-xdg-autostart@.target'', ''wayland-session-shutdown.target'',
      ''wayland-wm-env@.service'', ''wayland-wm@.service'', ''wayland-wm-app-daemon.service'',
      ''app-graphical.slice'', ''background-graphical.slice'', ''session-graphical.slice''].
        CHR ''/'' \<notin> set n" by simp
  have ga: "?a \<notin> set [''wayland-session-pre@.target'', ''wayland-session@.target'',
      ''wayland-session-xdg-autostart@.target'', ''wayland-session-shutdown.target'',
      ''wayland-wm-env@.service'', ''wayland-wm@.service'', ''wayland-wm-app-daemon.service'',
      ''app-graphical.slice'', ''background-graphical.slice'', ''session-graphical.slice'']"
    using g sa by blast
  have gb: "?b \<notin> set [''wayland-session-pre@.target'', ''wayland-session@.target'',
      ''wayland-session-xdg-autostart@.target'', ''wayland-session-shutdown.target'',
      ''wayland-wm-env@.service'', ''wayland-wm@.service'', ''wayland-wm-app-daemon.service'',
      ''app-graphical.slice'', ''background-graphical.slice'', ''session-graphical.slice'']"
    using g sb by blast
  have dg: "distinct [''wayland-session-pre@.target'', ''wayland-session@.target'',
      ''wayland-session-xdg-autostart@.target'', ''wayland-session-shutdown.target'',
      ''wayland-wm-env@.service'', ''wayland-wm@.service'', ''wayland-wm-app-daemon.service'',
      ''app-graphical.slice'', ''background-graphical.slice'', ''session-graphical.slice'',
      ''app-@autostart.service.d/slice-tweak.conf'']" by simp
  show "distinct (map call_unit calls)"
    unfolding u distinct_append using ga gb ab ta tb dg by auto
  have "length (map call_unit calls) = 13" unfolding u by simp
  then show "length calls = 13" by simp
qed

lemma set_join: "x \<in> set (join sep xs) \<Longrightarrow> x \<in> set sep \<or> (\<exists>l\<in>set xs. x \<in> set l)"
  by (induction sep xs rule: join.induct) auto

lemma set_split_chr_subset: "\<forall>l\<in>set (split_chr c s). set l \<subseteq> set s"
  by (induction s) (auto split: list.splits)

lemma set_split_chr: "l \<in> set (split_chr c s) \<Longrightarrow> x \<in> set l \<Longrightarrow> x \<in> set s"
  using set_split_chr_subset by blast

lemma set_rstrip: "x \<in> set (rstrip s) \<Longrightarrow> x \<in> set s"
  unfolding rstrip_def using set_dropWhileD [of x isspace "rev s"] by simp

lemma set_join_map:
  "x \<in> set (join sep (map f xs)) \<Longrightarrow> x \<in> set sep \<or> (\<exists>l\<in>set xs. x \<in> set (f l))"
  using set_join [of x sep "map f xs"] by auto

lemma set_textwrap_dedent:
  assumes "x \<in> set (textwrap_dedent d)"
  shows "x \<in> set d \<or> x = LF"
proof -
  define ls where "ls = map (\<lambda>l. if list_all blank_or_tab l then [] else l) (split_chr LF d)"
  have ls: "x \<in> set d" if "l \<in> set ls" "x \<in> set l" for l
  proof -
    from that(1) obtain l0 where l0: "l0 \<in> set (split_chr LF d)"
      and l: "l = (if list_all blank_or_tab l0 then [] else l0)"
      unfolding ls_def by auto
    from that(2) l have "x \<in> set l0" by (cases "list_all blank_or_tab l0") simp_all
    with l0 show ?thesis by (rule set_split_chr)
  qed
  show ?thesis
  proof (cases "margin_of (map (takeWhile blank_or_tab) (filter (\<lambda>l. l \<noteq> []) ls)) None")
    case None
    with assms have "x \<in> set (join [LF] ls)"
      by (simp add: textwrap_dedent_def Let_def ls_def)
    from set_join [OF this] ls show ?thesis by auto
  next
    case (Some margin)
    with assms have "x \<in> set (join [LF] (map (\<lambda>l. if margin \<noteq> [] \<and> startswith l margin
                                  then drop (length margin) l else l) ls))"
      by (simp add: textwrap_dedent_def Let_def ls_def)
    from set_join_map [OF this]
    have "x = LF \<or> (\<exists>l\<in>set ls. x \<in> set (if margin \<noteq> [] \<and> startswith l margin
                                  then drop (length margin) l else l))"
      by simp
    then show ?thesis
    proof
      assume "x = LF" then show ?thesis by simp
    next
      assume "\<exists>l\<in>set ls. x \<in> set (if margin \<noteq> [] \<and> startswith l margin
                                  then drop (length margin) l else l)"
      then obtain l where l: "l \<in> set ls"
        and x: "x \<in> set (if margin \<noteq> [] \<and> startswith l margin
                                  then drop (length margin) l else l)"
        by blast
      from x have "x \<in> set l"
        by (cases "margin \<noteq> [] \<and> startswith l margin") (auto dest: in_set_dropD)
      with l ls show ?thesis by blast
    qed
  qed
qed

lemma set_dedent: "x \<in> set (dedent d) \<Longrightarrow> x \<in> set d \<or> x = LF"
proof -
  assume a: "x \<in> set (dedent d)"
  let ?d = "dropWhile (\<lambda>c. c = LF) (textwrap_dedent d)"
  from a have "x \<in> set (rstrip ?d) \<or> x = LF"
    by (auto simp: dedent_def Let_def split: if_splits)
  then have "x \<in> set ?d \<or> x = LF" using set_rstrip by blast
  then have "x \<in> set (textwrap_dedent d) \<or> x = LF" by (auto dest: set_dropWhileD)
  then show ?thesis using set_textwrap_dedent by blast
qed

lemma CR_not_LF: "CR \<noteq> LF"
  by (simp add: CR_def LF_def)

lemma dedent_no_CR: "CR \<notin> set d \<Longrightarrow> CR \<notin> set (dedent d)"
  using set_dedent [of CR d] CR_not_LF by blast

lemma block_no_CR: "\<forall>l\<in>set ls. CR \<notin> set l \<Longrightarrow> CR \<notin> set (block n ls)"
  by (auto simp: block_def CR_def LF_def)

lemma join_no_CR: "CR \<notin> set sep \<Longrightarrow> \<forall>l\<in>set xs. CR \<notin> set l \<Longrightarrow> CR \<notin> set (join sep xs)"
  using set_join [of CR sep xs] by blast

lemma shlex_quote_no_CR: "CR \<notin> set s \<Longrightarrow> CR \<notin> set (shlex_quote s)"
  by (auto simp: shlex_quote_def CR_def split: if_splits)

lemma shlex_join_no_CR: "\<forall>l\<in>set xs. CR \<notin> set l \<Longrightarrow> CR \<notin> set (shlex_join xs)"
  unfolding shlex_join_def by (rule join_no_CR) (auto simp: CR_def shlex_quote_no_CR [unfolded CR_def])

lemma wayland_session_pre_target_no_CR:
  "CR \<notin> set (BIN_NAME p) \<Longrightarrow> CR \<notin> set (BIN_PATH p) \<Longrightarrow> CR \<notin> set (wayland_session_pre_target p)"
  unfolding wayland_session_pre_target_def
  apply (rule dedent_no_CR)
  apply (rule block_no_CR)
  apply (simp add: CR_def)
  done

lemma wayland_session_target_no_CR:
  "CR \<notin> set (BIN_NAME p) \<Longrightarrow> CR \<notin> set (BIN_PATH p) \<Longrightarrow> CR \<notin> set (wayland_session_target p)"
  unfolding wayland_session_target_def
  apply (rule dedent_no_CR)
  apply (rule block_no_CR)
  apply (simp add: CR_def)
  done

lemma wayland_session_xdg_autostart_target_no_CR:
  "CR \<notin> set (BIN_NAME p) \<Longrightarrow> CR \<notin> set (BIN_PATH p) \<Longrightarrow> CR \<notin> set (wayland_session_xdg_autostart_target p)"
  unfolding wayland_session_xdg_autostart_target_def
  apply (rule dedent_no_CR)
  apply (rule block_no_CR)
  apply (simp add: CR_def)
  done

lemma wayland_session_shutdown_target_no_CR:
  "CR \<notin> set (BIN_NAME p) \<Longrightarrow> CR \<notin> set (BIN_PATH p) \<Longrightarrow> CR \<notin> set (wayland_session_shutdown_target p)"
  unfolding wayland_session_shutdown_target_def
  apply (rule dedent_no_CR)
  apply (rule block_no_CR)
  apply (simp add: CR_def)
  done

lemma app_graphical_slice_no_CR:
  "CR \<notin> set (BIN_NAME p) \<Longrightarrow> CR \<notin> set (BIN_PATH p) \<Longrightarrow> CR \<notin> set (app_graphical_slice p)"
  unfolding app_graphical_slice_def
  apply (rule dedent_no_CR)
  apply (rule block_no_CR)
  apply (simp add: CR_def)
  done

lemma background_graphical_slice_no_CR:
  "CR \<notin> set (BIN_NAME p) \<Longrightarrow> CR \<notin> set (BIN_PATH p) \<Longrightarrow> CR \<notin> set (background_graphical_slice p)"
  unfolding background_graphical_slice_def
  apply (rule dedent_no_CR)
  apply (rule block_no_CR)
  apply (simp add: CR_def)
  done

lemma session_graphical_slice_no_CR:
  "CR \<notin> set (BIN_NAME p) \<Longrightarrow> CR \<notin> set (BIN_PATH p) \<Longrightarrow> CR \<notin> set (session_graphical_slice p)"
  unfolding session_graphical_slice_def
  apply (rule dedent_no_CR)
  apply (rule block_no_CR)
  apply (simp add: CR_def)
  done

lemma slice_tweak_conf_no_CR:
  "CR \<notin> set (BIN_NAME p) \<Longrightarrow> CR \<notin> set (BIN_PATH p) \<Longrightarrow> CR \<notin> set (slice_tweak_conf p)"
  unfolding slice_tweak_conf_def
  apply (rule dedent_no_CR)
  apply (rule block_no_CR)
  apply (simp add: CR_def)
  done

lemma wayland_wm_env_service_no_CR:
  "CR \<notin> set (BIN_NAME p) \<Longrightarrow> CR \<notin> set (BIN_PATH p) \<Longrightarrow> CR \<notin> set slice
     \<Longrightarrow> CR \<notin> set (wayland_wm_env_service p slice)"
  unfolding wayland_wm_env_service_def
  apply (rule dedent_no_CR)
  apply (rule block_no_CR)
  apply (simp add: CR_def)
  done

lemma wayland_wm_service_no_CR:
  "CR \<notin> set (BIN_NAME p) \<Longrightarrow> CR \<notin> set (BIN_PATH p) \<Longrightarrow> CR \<notin> set slice
     \<Longrightarrow> CR \<notin> set (wayland_wm_service p slice)"
  unfolding wayland_wm_service_def
  apply (rule dedent_no_CR)
  apply (rule block_no_CR)
  apply (simp add: CR_def)
  done

lemma wayland_wm_app_daemon_service_no_CR:
  "CR \<notin> set (BIN_NAME p) \<Longrightarrow> CR \<notin> set (BIN_PATH p) \<Longrightarrow> CR \<notin> set slice
     \<Longrightarrow> CR \<notin> set (wayland_wm_app_daemon_service p slice)"
  unfolding wayland_wm_app_daemon_service_def
  apply (rule dedent_no_CR)
  apply (rule block_no_CR)
  apply (simp add: CR_def)
  done

lemma wm_specific_header_no_CR:
  "CR \<notin> set (BIN_NAME p) \<Longrightarrow> CR \<notin> set (wm_id g) \<Longrightarrow> CR \<notin> set (wm_specific_header p g)"
  unfolding wm_specific_header_def
  apply (rule dedent_no_CR)
  apply (rule block_no_CR)
  apply (simp add: CR_def)
  done

lemma preloader_description_no_CR:
  "CR \<notin> set (wm_name g) \<Longrightarrow> CR \<notin> set (preloader_description g)"
  unfolding preloader_description_def
  apply (rule dedent_no_CR)
  apply (rule block_no_CR)
  apply (simp add: CR_def)
  done

lemma service_description_no_CR:
  "CR \<notin> set description \<Longrightarrow> CR \<notin> set (service_description description)"
  unfolding service_description_def
  apply (rule dedent_no_CR)
  apply (rule block_no_CR)
  apply (simp add: CR_def)
  done

lemma preloader_exec_no_CR:
  "CR \<notin> set (BIN_PATH p) \<Longrightarrow> CR \<notin> set prepend \<Longrightarrow> CR \<notin> set appended
     \<Longrightarrow> CR \<notin> set (preloader_exec p prepend appended)"
  unfolding preloader_exec_def
  apply (rule dedent_no_CR)
  apply (rule block_no_CR)
  apply (simp add: CR_def)
  done

lemma service_exec_no_CR:
  "CR \<notin> set (BIN_PATH p) \<Longrightarrow> CR \<notin> set appended \<Longrightarrow> CR \<notin> set (service_exec p appended)"
  unfolding service_exec_def
  apply (rule dedent_no_CR)
  apply (rule block_no_CR)
  apply (simp add: CR_def)
  done

lemma generic_calls_no_CR:
  assumes "CR \<notin> set (BIN_NAME p)" and "CR \<notin> set (BIN_PATH p)" and "CR \<notin> set slice"
    and "c \<in> set (generic_calls p slice)"
  shows "CR \<notin> set (call_data c)"
  using assms(4) unfolding generic_calls_def
  using wayland_session_pre_target_no_CR [OF assms(1,2)]
    wayland_session_target_no_CR [OF assms(1,2)]
    wayland_session_xdg_autostart_target_no_CR [OF assms(1,2)]
    wayland_session_shutdown_target_no_CR [OF assms(1,2)]
    wayland_wm_env_service_no_CR [OF assms(1,2,3)]
    wayland_wm_service_no_CR [OF assms(1,2,3)]
    wayland_wm_app_daemon_service_no_CR [OF assms(1,2,3)]
    app_graphical_slice_no_CR [OF assms(1,2)]
    background_graphical_slice_no_CR [OF assms(1,2)]
    session_graphical_slice_no_CR [OF assms(1,2)]
  by auto

lemma tweak_calls_no_CR:
  assumes "CR \<notin> set (BIN_NAME p)" and "CR \<notin> set (BIN_PATH p)" and "c \<in> set (tweak_calls p)"
  shows "CR \<notin> set (call_data c)"
  using assms(3) slice_tweak_conf_no_CR [OF assms(1,2)] by (auto simp: tweak_calls_def)

lemma specific_calls_no_CR:
  assumes sc: "specific_calls p g = Inr calls" and cmd: "wm_cmdline g \<noteq> []"
    and cr: "CR \<notin> set (BIN_NAME p @ BIN_PATH p @ wm_id g @ wm_name g @ wm_description g
               @ concat (wm_cmdline g) @ concat (wm_cli_args g) @ concat (wm_desktop_names g)
               @ concat (wm_cli_desktop_names g))"
    and c: "c \<in> set calls"
  shows "CR \<notin> set (call_data c)"
proof -
  from cmd have "hd (wm_cmdline g) \<in> set (wm_cmdline g)" by simp
  with cr have hd: "CR \<notin> set (hd (wm_cmdline g))" by auto
  have h: "CR \<notin> set (wm_specific_header p g)"
    using cr by (intro wm_specific_header_no_CR) auto
  have pd: "CR \<notin> set (preloader_description g)"
    using cr by (intro preloader_description_no_CR) auto
  define description where "description = join '', '' (filter (\<lambda>s. s \<noteq> [])
                            [if wm_name g \<noteq> [] then wm_name g else hd (wm_cmdline g),
                             wm_description g])"
  have "CR \<notin> set description"
    unfolding description_def using cr hd by (intro join_no_CR) (auto simp: CR_def)
  then have sd: "CR \<notin> set (service_description description)" by (rule service_description_no_CR)
  define prepend where "prepend =
                 (if wm_cli_desktop_names_exclusive g
                  then '' -eD '' @ [CHR 0x22] @ join '':'' (wm_cli_desktop_names g) @ [CHR 0x22]
                  else if wm_desktop_names g \<noteq> [hd (wm_cmdline g)]
                  then '' -D '' @ [CHR 0x22] @ join '':'' (wm_desktop_names g) @ [CHR 0x22]
                  else [])"
  have j1: "CR \<notin> set (join '':'' (wm_cli_desktop_names g))"
    using cr by (intro join_no_CR) (auto simp: CR_def)
  have j2: "CR \<notin> set (join '':'' (wm_desktop_names g))"
    using cr by (intro join_no_CR) (auto simp: CR_def)
  have pr: "CR \<notin> set prepend"
    unfolding prepend_def using j1 j2 by (auto simp: CR_def)
  define appended where
    "appended = (if wm_cli_args g \<noteq> [] then '' '' @ shlex_join (wm_cli_args g) else [])"
  have "CR \<notin> set (shlex_join (wm_cli_args g))"
    using cr by (intro shlex_join_no_CR) auto
  then have ap: "CR \<notin> set appended" unfolding appended_def by (auto simp: CR_def)
  have pe: "CR \<notin> set (preloader_exec p prepend appended)"
    using cr pr ap by (intro preloader_exec_no_CR) auto
  have se: "CR \<notin> set (service_exec p appended)"
    using cr ap by (intro service_exec_no_CR) auto
  from sc cmd have calls: "calls =
     (let wm_specific_preloader = ''wayland-wm-env@'' @ wm_id_unit_string g @ ''.service.d/50_custom.conf'';
          wm_specific_service = ''wayland-wm@'' @ wm_id_unit_string g @ ''.service.d/50_custom.conf'';
          data0 = [wm_specific_header p g];
          preloader_data1 = (if wm_name g \<noteq> [] then data0 @ [preloader_description g] else data0);
          service_data1 =
                 (if wm_name g \<noteq> [] \<or> wm_description g \<noteq> []
                  then data0 @ [service_description description]
                  else data0);
          preloader_data =
                 (if prepend \<noteq> [] \<or> appended \<noteq> []
                  then preloader_data1 @ [preloader_exec p prepend appended] else preloader_data1);
          service_data =
                 (if appended \<noteq> [] then service_data1 @ [service_exec p appended] else service_data1)
      in [if length preloader_data > 1
          then Update_unit wm_specific_preloader (concat preloader_data)
          else Remove_unit wm_specific_preloader,
          if length service_data > 1
          then Update_unit wm_specific_service (concat service_data)
          else Remove_unit wm_specific_service])"
    unfolding description_def prepend_def appended_def
    by (simp add: specific_calls_def Let_def)
  from c show ?thesis
    unfolding calls Let_def using h pd sd pe se
    by (auto split: if_splits)
qed

lemma generate_units_calls_no_CR:
  assumes "generate_units_calls p args g = Inr calls" and "wm_cmdline g \<noteq> []"
    and cr: "CR \<notin> set (BIN_NAME p @ BIN_PATH p @ wm_id g @ wm_name g @ wm_description g
               @ concat (wm_cmdline g) @ concat (wm_cli_args g) @ concat (wm_desktop_names g)
               @ concat (wm_cli_desktop_names g))"
    and c: "c \<in> set calls"
  shows "CR \<notin> set (call_data c)"
proof -
  from assms(1) obtain sc where sc: "specific_calls p g = Inr sc"
    and calls: "calls = generic_calls p (if use_session_slice args then ''session.slice'' else ''app.slice'')
               @ sc @ tweak_calls p"
    by (auto simp: generate_units_calls_def split: sum.splits)
  from cr have n: "CR \<notin> set (BIN_NAME p)" and b: "CR \<notin> set (BIN_PATH p)" by auto
  have s: "CR \<notin> set (if use_session_slice args then ''session.slice'' else ''app.slice'')"
    by (simp add: CR_def)
  from c calls consider "c \<in> set (generic_calls p (if use_session_slice args then ''session.slice'' else ''app.slice''))"
    | "c \<in> set sc" | "c \<in> set (tweak_calls p)" by auto
  then show ?thesis
  proof cases
    case 1 with n b s show ?thesis by (rule generic_calls_no_CR)
  next
    case 2 with sc assms(2) cr show ?thesis by (rule specific_calls_no_CR)
  next
    case 3 with n b show ?thesis by (rule tweak_calls_no_CR)
  qed
qed

lemma generate_units_calls_ok:
  "wm_cmdline g \<noteq> [] \<Longrightarrow> \<exists>calls. generate_units_calls p args g = Inr calls"
  by (simp add: generate_units_calls_def specific_calls_def Let_def)

lemma split_chr_keeps: "x \<in> set s \<Longrightarrow> x \<noteq> c \<Longrightarrow> \<exists>l\<in>set (split_chr c s). x \<in> set l"
  by (induction s) (auto split: list.splits)

lemma join_keeps: "l \<in> set xs \<Longrightarrow> x \<in> set l \<Longrightarrow> x \<in> set (join sep xs)"
  by (induction sep xs rule: join.induct) auto

lemma dropWhile_keeps: "x \<in> set s \<Longrightarrow> \<not> P x \<Longrightarrow> x \<in> set (dropWhile P s)"
  by (induction s) auto

lemma rstrip_keeps: "x \<in> set s \<Longrightarrow> \<not> isspace x \<Longrightarrow> x \<in> set (rstrip s)"
  unfolding rstrip_def using dropWhile_keeps [of x "rev s" isspace] by simp

lemma common_prefix_blank: "\<forall>c\<in>set a. blank_or_tab c \<Longrightarrow> \<forall>c\<in>set (common_prefix a b). blank_or_tab c"
  by (induction a b rule: common_prefix.induct) auto

lemma margin_of_blank:
  assumes "\<forall>i\<in>set indents. \<forall>c\<in>set i. blank_or_tab c"
    and "\<forall>m. margin = Some m \<longrightarrow> (\<forall>c\<in>set m. blank_or_tab c)"
    and "margin_of indents margin = Some m"
  shows "\<forall>c\<in>set m. blank_or_tab c"
  using assms
proof (induction indents arbitrary: margin)
  case Nil
  then show ?case by simp
next
  case (Cons i indents)
  let ?margin = "case margin of None \<Rightarrow> Some i | Some m \<Rightarrow> Some (common_prefix m i)"
  have "\<forall>m. ?margin = Some m \<longrightarrow> (\<forall>c\<in>set m. blank_or_tab c)"
  proof (cases margin)
    case None
    with Cons.prems(1) show ?thesis by simp
  next
    case (Some m0)
    with Cons.prems(2) have "\<forall>c\<in>set m0. blank_or_tab c" by simp
    from common_prefix_blank [OF this] Some show ?thesis by simp
  qed
  moreover from Cons.prems(1) have "\<forall>i\<in>set indents. \<forall>c\<in>set i. blank_or_tab c" by simp
  moreover from Cons.prems(3) have "margin_of indents ?margin = Some m" by simp
  ultimately show ?case using Cons.IH by blast
qed

lemma drop_prefix_keeps:
  assumes "x \<in> set l" and "startswith l m" and "x \<notin> set m"
  shows "x \<in> set (drop (length m) l)"
proof -
  have "set l = set (take (length m) l) \<union> set (drop (length m) l)"
    by (metis append_take_drop_id set_append)
  with assms show ?thesis by (auto simp: startswith_def)
qed

lemma textwrap_dedent_keeps:
  assumes "x \<in> set d" and "x \<noteq> LF" and "\<not> blank_or_tab x"
  shows "x \<in> set (textwrap_dedent d)"
proof -
  define ls where "ls = map (\<lambda>l. if list_all blank_or_tab l then [] else l) (split_chr LF d)"
  from split_chr_keeps [OF assms(1,2)] obtain l where l: "l \<in> set (split_chr LF d)"
    and x: "x \<in> set l" by blast
  from x assms(3) have "\<not> list_all blank_or_tab l" by (auto simp: list_all_iff)
  with l have lls: "l \<in> set ls" unfolding ls_def by force
  show ?thesis
  proof (cases "margin_of (map (takeWhile blank_or_tab) (filter (\<lambda>l. l \<noteq> []) ls)) None")
    case None
    then have "textwrap_dedent d = join [LF] ls"
      by (simp add: textwrap_dedent_def Let_def ls_def)
    with join_keeps [OF lls x] show ?thesis by simp
  next
    case (Some margin)
    have "\<forall>i\<in>set (map (takeWhile blank_or_tab) (filter (\<lambda>l. l \<noteq> []) ls)). \<forall>c\<in>set i. blank_or_tab c"
      by (auto dest: set_takeWhileD)
    from margin_of_blank [OF this _ Some] have "\<forall>c\<in>set margin. blank_or_tab c" by simp
    with assms(3) have xm: "x \<notin> set margin" by blast
    let ?g = "\<lambda>l. if margin \<noteq> [] \<and> startswith l margin then drop (length margin) l else l"
    have "x \<in> set (?g l)"
      using x xm drop_prefix_keeps [of x l margin] by simp
    moreover have "?g l \<in> set (map ?g ls)" using lls by (rule imageI [of l "set ls" ?g, folded set_map])
    ultimately have "x \<in> set (join [LF] (map ?g ls))" using join_keeps by blast
    moreover from Some have "textwrap_dedent d = join [LF] (map ?g ls)"
      by (simp add: textwrap_dedent_def Let_def ls_def)
    ultimately show ?thesis by simp
  qed
qed

lemma dedent_keeps:
  assumes "x \<in> set d" and "\<not> isspace x"
  shows "x \<in> set (dedent d)"
proof -
  from assms(2) have n: "x \<noteq> LF" and b: "\<not> blank_or_tab x"
    by (auto simp: isspace_def LF_def blank_or_tab_def char_in_def)
  from textwrap_dedent_keeps [OF assms(1) n b]
  have "x \<in> set (dropWhile (\<lambda>c. c = LF) (textwrap_dedent d))"
    using n by (intro dropWhile_keeps) simp_all
  from rstrip_keeps [OF this assms(2)] show ?thesis
    by (simp add: dedent_def Let_def)
qed

lemma hash_not_space: "\<not> isspace CHR ''#''"
  by (simp add: isspace_def char_in_def)

lemma injected_block_not_empty: "dedent (block n ((CHR ''#'' # l) # ls)) \<noteq> []"
proof -
  have "CHR ''#'' \<in> set (block n ((CHR ''#'' # l) # ls))" by (simp add: block_def)
  from dedent_keeps [OF this hash_not_space] show ?thesis by auto
qed

lemma generic_calls_not_empty:
  "c \<in> set (generic_calls p slice) \<Longrightarrow> is_update c \<and> call_data c \<noteq> []"
  unfolding generic_calls_def wayland_session_pre_target_def wayland_session_target_def
    wayland_session_xdg_autostart_target_def wayland_session_shutdown_target_def
    wayland_wm_env_service_def wayland_wm_service_def wayland_wm_app_daemon_service_def
    app_graphical_slice_def background_graphical_slice_def session_graphical_slice_def
  using injected_block_not_empty by (auto simp del: dedent_def)

lemma tweak_calls_not_empty:
  "c \<in> set (tweak_calls p) \<Longrightarrow> is_update c \<and> call_data c \<noteq> []"
  unfolding tweak_calls_def slice_tweak_conf_def
  using injected_block_not_empty by auto

lemma update_unit_dry_run:
  assumes "unit_location args unit = Inr unit_path" and "dry_run args"
  shows "\<exists>s'. update_unit args unit data s = (Inr (data \<noteq> read_text (files s) unit_path), s')
     \<and> files s' = files s
     \<and> units_changed s' = (units_changed s \<or> data \<noteq> read_text (files s) unit_path)"
proof -
  from assms(1) obtain unit_dir unit' where
    r: "(if isabs unit then Inr (''/'', normpath unit)
         else if count_slash unit > 1 then Inl ValueError
         else get_unit_path args unit) = Inr (unit_dir, unit')"
    and p: "unit_path = path_join unit_dir unit'" and m: "re_search_Z unit_ext unit"
    by (auto simp: unit_location_def split: if_splits sum.splits prod.splits)
  show ?thesis
    unfolding update_unit_def using m assms(2)
    by (simp only: r) (auto simp: Let_def p read_text_def split: option.splits)
qed

lemma remove_unit_dry_run:
  assumes "unit_location args unit = Inr unit_path" and "dry_run args"
  shows "\<exists>s'. remove_unit args unit s = (Inr (unit_path \<in> fst ` set (files s)), s')
     \<and> files s' = files s
     \<and> units_changed s' = (units_changed s \<or> unit_path \<in> fst ` set (files s))"
proof -
  from assms(1) obtain unit_dir unit' where
    r: "(if isabs unit then Inr (''/'', normpath unit)
         else if count_slash unit > 1 then Inl ValueError
         else get_unit_path args unit) = Inr (unit_dir, unit')"
    and p: "unit_path = path_join unit_dir unit'" and m: "re_search_Z unit_ext unit"
    by (auto simp: unit_location_def split: if_splits sum.splits prod.splits)
  show ?thesis
    unfolding remove_unit_def using m assms(2)
    by (simp only: r) (auto simp: Let_def p)
qed

lemma run_call_dry_run:
  assumes "unit_location args (call_unit c) = Inr unit_path" and "dry_run args" and "files s = []"
  shows "\<exists>s'. run_call args c s = (Inr (is_update c \<and> call_data c \<noteq> []), s')
     \<and> files s' = [] \<and> units_changed s' = (units_changed s \<or> (is_update c \<and> call_data c \<noteq> []))"
proof (cases c)
  case (Update_unit unit data)
  with assms(1) have "unit_location args unit = Inr unit_path" by simp
  from update_unit_dry_run [OF this assms(2), of data s] assms(3) Update_unit
  show ?thesis by (auto simp: run_call_def read_text_def)
next
  case (Remove_unit unit)
  with assms(1) have "unit_location args unit = Inr unit_path" by simp
  from remove_unit_dry_run [OF this assms(2), of s] assms(3) Remove_unit
  show ?thesis by (auto simp: run_call_def)
qed

lemma run_calls_dry_run:
  assumes "\<forall>c\<in>set cs. \<exists>unit_path. unit_location args (call_unit c) = Inr unit_path"
    and "dry_run args" and "files s = []"
  shows "\<exists>s'. run_calls args cs rs s
                = (Inr (rs @ map (\<lambda>c. is_update c \<and> call_data c \<noteq> []) cs), s')
     \<and> files s' = []
     \<and> units_changed s' = (units_changed s \<or> (\<exists>c\<in>set cs. is_update c \<and> call_data c \<noteq> []))"
  using assms
proof (induction cs arbitrary: rs s)
  case Nil
  then show ?case by simp
next
  case (Cons c cs)
  from Cons.prems(1) obtain unit_path where "unit_location args (call_unit c) = Inr unit_path"
    by auto
  from run_call_dry_run [OF this Cons.prems(2,3)] obtain s1 where
    1: "run_call args c s = (Inr (is_update c \<and> call_data c \<noteq> []), s1)" "files s1 = []"
       "units_changed s1 = (units_changed s \<or> (is_update c \<and> call_data c \<noteq> []))"
    by blast
  from Cons.prems(1) have "\<forall>c\<in>set cs. \<exists>unit_path. unit_location args (call_unit c) = Inr unit_path"
    by simp
  from Cons.IH [OF this Cons.prems(2) 1(2), of "rs @ [is_update c \<and> call_data c \<noteq> []]"]
  obtain s' where
    2: "run_calls args cs (rs @ [is_update c \<and> call_data c \<noteq> []]) s1
          = (Inr ((rs @ [is_update c \<and> call_data c \<noteq> []])
                  @ map (\<lambda>c. is_update c \<and> call_data c \<noteq> []) cs), s')"
       "files s' = []"
       "units_changed s' = (units_changed s1 \<or> (\<exists>c\<in>set cs. is_update c \<and> call_data c \<noteq> []))"
    by blast
  from 1 2 show ?case by auto
qed

lemma run_calls_ok:
  assumes "\<forall>c\<in>set cs. \<exists>unit_path. unit_location args (call_unit c) = Inr unit_path"
    and "\<not> dry_run args"
  shows "\<exists>rs' s'. run_calls args cs rs s = (Inr rs', s')"
  using assms
proof (induction cs arbitrary: rs s)
  case Nil
  then show ?case by simp
next
  case (Cons c cs)
  from Cons.prems(1) obtain unit_path where l: "unit_location args (call_unit c) = Inr unit_path"
    by auto
  have "\<exists>r s1. run_call args c s = (Inr r, s1)"
  proof (cases c)
    case (Update_unit unit data)
    with l run_call_update [of args unit unit_path data s] Cons.prems(2) show ?thesis by auto
  next
    case (Remove_unit unit)
    with l run_call_remove [of args unit unit_path s] Cons.prems(2) show ?thesis by auto
  qed
  then obtain r s1 where 1: "run_call args c s = (Inr r, s1)" by blast
  from Cons.prems(1) have "\<forall>c\<in>set cs. \<exists>unit_path. unit_location args (call_unit c) = Inr unit_path"
    by simp
  from Cons.IH [OF this Cons.prems(2), of "rs @ [r]" s1] 1 show ?case by simp
qed

lemma generate_units_calls_located:
  assumes "generate_units_calls p args g = Inr calls" and "CHR ''/'' \<notin> set (wm_id_unit_string g)"
    and "runtime_dir args = Some rt" and "rt \<noteq> []"
  shows "\<forall>c\<in>set calls. \<exists>unit_path. unit_location args (call_unit c) = Inr unit_path"
    and "distinct (map (\<lambda>c. unit_location args (call_unit c)) calls)"
proof -
  have pl: "\<forall>u\<in>set (map call_unit calls). plain_unit u"
    using generate_units_calls_plain [OF assms(1,2)] by simp
  then show "\<forall>c\<in>set calls. \<exists>unit_path. unit_location args (call_unit c) = Inr unit_path"
    using plain_unit_location [OF _ assms(3,4)] by simp
  from plain_units_distinct_locations [OF pl generate_units_calls_distinct(1) [OF assms(1)] assms(3,4)]
  show "distinct (map (\<lambda>c. unit_location args (call_unit c)) calls)"
    by (simp add: comp_def)
qed

lemma generate_units_calls_sway:
  "generate_units_calls p_uwsm args_dry g_sway =
     Inr (generic_calls p_uwsm ''app.slice''
          @ [Remove_unit ''wayland-wm-env@sway.service.d/50_custom.conf'',
             Remove_unit ''wayland-wm@sway.service.d/50_custom.conf'']
          @ tweak_calls p_uwsm)"
  by (simp add: generate_units_calls_def specific_calls_sway args_dry_def)

lemma all_true: "\<forall>b\<in>set bs. b \<Longrightarrow> bs = replicate (length bs) True"
  by (induction bs) auto

lemma generic_calls_flags:
  "map (\<lambda>c. is_update c \<and> call_data c \<noteq> []) (generic_calls p slice) = replicate 10 True"
proof -
  let ?bs = "map (\<lambda>c. is_update c \<and> call_data c \<noteq> []) (generic_calls p slice)"
  have "\<forall>b\<in>set ?bs. b" using generic_calls_not_empty [of _ p slice] by auto
  then have "?bs = replicate (length ?bs) True" by (rule all_true)
  moreover have "length ?bs = 10" by (simp add: generic_calls_def)
  ultimately show ?thesis by simp
qed

lemma tweak_calls_flags:
  "map (\<lambda>c. is_update c \<and> call_data c \<noteq> []) (tweak_calls p) = [True]"
proof -
  have "\<forall>c\<in>set (tweak_calls p). is_update c \<and> call_data c \<noteq> []"
    using tweak_calls_not_empty by blast
  moreover obtain c where "tweak_calls p = [c]" by (simp add: tweak_calls_def)
  ultimately show ?thesis by simp
qed

lemma generate_units_dry_run:
  assumes calls: "generate_units_calls p args g = Inr calls" and dry: "dry_run args"
    and sl: "CHR ''/'' \<notin> set (wm_id_unit_string g)"
    and rt: "runtime_dir args = Some rt" "rt \<noteq> []"
    and f: "files s = []"
  shows "\<exists>s'. generate_units p args g s
           = (Inr (map (\<lambda>c. is_update c \<and> call_data c \<noteq> []) calls), s')
         \<and> files s' = [] \<and> units_changed s'"
proof -
  have f0: "files (s\<lparr>units_changed := False\<rparr>) = []" using f by simp
  have loc: "\<forall>c\<in>set calls. \<exists>unit_path. unit_location args (call_unit c) = Inr unit_path"
    using calls sl rt by (rule generate_units_calls_located(1))
  have "\<exists>s'. run_calls args calls [] (s\<lparr>units_changed := False\<rparr>)
                = (Inr (map (\<lambda>c. is_update c \<and> call_data c \<noteq> []) calls), s')
     \<and> files s' = []
     \<and> units_changed s' = (\<exists>c\<in>set calls. is_update c \<and> call_data c \<noteq> [])"
    using run_calls_dry_run [OF loc dry f0, of "[]"] by simp
  then obtain s' where r: "run_calls args calls [] (s\<lparr>units_changed := False\<rparr>)
                = (Inr (map (\<lambda>c. is_update c \<and> call_data c \<noteq> []) calls), s')"
    and fs: "files s' = []"
    and u: "units_changed s' = (\<exists>c\<in>set calls. is_update c \<and> call_data c \<noteq> [])"
    by (elim exE conjE)
  from calls obtain sc where
    "calls = generic_calls p (if use_session_slice args then ''session.slice'' else ''app.slice'')
               @ sc @ tweak_calls p"
    by (auto simp: generate_units_calls_def split: sum.splits)
  then obtain c where c: "c \<in> set calls" "c \<in> set (tweak_calls p)"
    by (simp add: tweak_calls_def)
  from tweak_calls_not_empty [OF c(2)] c(1) u have "units_changed s'" by blast
  with r fs show ?thesis
    unfolding generate_units_run_calls [OF calls] by simp
qed

lemma sway_flags:
  "map (\<lambda>c. is_update c \<and> call_data c \<noteq> [])
     (generic_calls p_uwsm ''app.slice''
          @ [Remove_unit ''wayland-wm-env@sway.service.d/50_custom.conf'',
             Remove_unit ''wayland-wm@sway.service.d/50_custom.conf'']
          @ tweak_calls p_uwsm)
   = [True, True, True, True, True, True, True, True, True, True, False, False, True]"
  unfolding map_append generic_calls_flags tweak_calls_flags
  by (simp add: numeral_eq_Suc)

lemma generate_units_dry_run_sway:
  assumes "files s = []"
  shows "\<exists>s'. generate_units p_uwsm args_dry g_sway s
           = (Inr [True, True, True, True, True, True, True, True, True, True, False, False, True], s')
         \<and> files s' = [] \<and> units_changed s'"
proof -
  have sl: "CHR ''/'' \<notin> set (wm_id_unit_string g_sway)" by (simp add: g_sway_def)
  have rt: "runtime_dir args_dry = Some ''/run/user/1000''" "''/run/user/1000'' \<noteq> []"
    by (simp_all add: args_dry_def)
  have dry: "dry_run args_dry" by (simp add: args_dry_def)
  from generate_units_dry_run [OF generate_units_calls_sway dry sl rt assms]
  show ?thesis unfolding sway_flags .
qed

lemma hexdigit_not_slash: "hexdigit n \<noteq> CHR ''/''"
proof -
  have "n mod 16 < length ''0123456789abcdef''" by simp
  then have "hexdigit n \<in> set ''0123456789abcdef''"
    unfolding hexdigit_def by (rule nth_mem)
  then show ?thesis by auto
qed

lemma cesc_byte_no_slash: "CHR ''/'' \<notin> set (cesc_byte b)"
  using hexdigit_not_slash [of "b div 16"] hexdigit_not_slash [of b]
  by (auto simp: cesc_byte_def BS_def)

lemma escape_pieces_no_slash: "t \<in> set (escape_pieces ch) \<Longrightarrow> CHR ''/'' \<notin> set t"
  using cesc_byte_no_slash by (auto simp: escape_pieces_def split: if_splits)

lemma char2cesc_no_slash: "CHR ''/'' \<notin> set (char2cesc s)"
  using cesc_byte_no_slash by (auto simp: char2cesc_def)

text \<open>
  \<^verbatim>\<open>wm_id_unit_string = simple_systemd_escape(wm_id, start=False)\<close>
  in \<open>fill_wm_globals\<close>: the unit string of a compositor never holds a slash.
\<close>

lemma simple_systemd_escape_no_slash: "CHR ''/'' \<notin> set (simple_systemd_escape string start)"
  using escape_pieces_no_slash char2cesc_no_slash
  by (auto simp: simple_systemd_escape_def dest: in_set_dropD)

text \<open>
  A content with a carriage return inside is written as it is and read back with a newline
  in its place: \<open>update_unit\<close> writes it again every time.
\<close>

lemma update_unit_carriage_return:
  "fst (update_unit args_run ''app-graphical.slice'' [CHR ''a'', CR, CHR ''b''] store_empty) = Inr True
   \<and> fst (update_unit args_run ''app-graphical.slice'' [CHR ''a'', CR, CHR ''b'']
           (snd (update_unit args_run ''app-graphical.slice'' [CHR ''a'', CR, CHR ''b''] store_empty)))
       = Inr True"
  by code_simp




end
